theory Spec2Isabelle
  imports Main "HOL-Library.Sublist"
begin

chapter \<open>The launcher's docker supervision (launcher/docker.go)\<close>

text \<open>
  The launcher drives the container runtime through external commands. Every command
  the Go code runs is an effect: its outcome is not computed by the program but handed
  to it by the operating system. The embedding makes those outcomes explicit inputs
  (oracles, or the captured output of a command) and records every invocation in a
  trace, so that "how many times was the probe run" is a question about a value.
\<close>

section \<open>The model\<close>

subsection \<open>Errors\<close>

text \<open>
  Go errors as values. \<open>ErrLaunch\<close> is the sentinel \<^verbatim>\<open>claberneteserrors.ErrLaunch\<close>;
  \<open>Errorf f e\<close> is \<^verbatim>\<open>fmt.Errorf(f, e)\<close> for a format \<open>f\<close> with a single
  \<^verbatim>\<open>%w\<close> verb, which wraps \<open>e\<close>; the other constructors are the errors the
  standard library hands back (a command that exits non-zero or cannot be started, a
  file operation, a template).
\<close>

datatype error =
    ErrLaunch
  | Errorf string error
  | ExitError nat
  | ExecError string
  | PathError string
  | TemplateError string

text \<open>\<^verbatim>\<open>errors.Is\<close>: the error itself or anything it wraps.\<close>

fun errors_Is :: "error \<Rightarrow> error \<Rightarrow> bool" where
  "errors_Is (Errorf f e) target = (Errorf f e = target \<or> errors_Is e target)"
| "errors_Is e target = (e = target)"

subsection \<open>Commands, traces and Go's \<open>int\<close>\<close>

text \<open>
  An event is one effect of the program on its surroundings: running a command to its
  end (its argv), sleeping (in seconds), a warning handed to the logger
  (\<^verbatim>\<open>logger.Warnf(format, args...)\<close>, the format and its arguments as they are
  passed: a string, an error, or an error variable that holds \<^verbatim>\<open>nil\<close>), \<^verbatim>\<open>os.WriteFile(name, data, perm)\<close>, or the start of a goroutine that
  will run a command. A trace lists the events in the order they happened. The outcome of the \<open>n\<close>-th run of a command (counting from 0)
  is given by an oracle: \<open>None\<close> is exit status 0 (Go's \<^verbatim>\<open>err == nil\<close>),
  \<open>Some e\<close> the error that \<^verbatim>\<open>cmd.Run()\<close> returns.
\<close>

datatype fmt_arg = Str string | Err error | NilErr

datatype event =
    Run "string list"
  | Sleep nat
  | Warnf string "fmt_arg list"
  | WriteFile string string nat
  | Go "string list"

type_synonym cmd_oracle = "nat \<Rightarrow> error option"

definition psArgs :: "string list" where
  "psArgs = [''docker'', ''ps'']"

definition startArgs :: "string list" where
  "startArgs = [''service'', ''docker'', ''start'']"

definition runs :: "string list \<Rightarrow> event list \<Rightarrow> nat" where
  "runs argv tr = count_list tr (Run argv)"

text \<open>
  \<^verbatim>\<open>attempts\<close> is a Go \<^verbatim>\<open>int\<close>: 64 bits, two's complement, on the platforms
  the launcher is built for. \<^verbatim>\<open>attempts++\<close> wraps from the largest value to the
  smallest.
\<close>

definition int_max :: int where
  "int_max = 2 ^ 63 - 1"

definition int_min :: int where
  "int_min = - (2 ^ 63)"

definition int_inc :: "int \<Rightarrow> int" where
  "int_inc a = (if a = int_max then int_min else a + 1)"

text \<open>The value of \<^verbatim>\<open>attempts\<close> after \<open>n\<close> increments, starting from 0.\<close>

definition attemptsAfter :: "nat \<Rightarrow> int" where
  "attemptsAfter n = (int_inc ^^ n) 0"

subsection \<open>startDocker\<close>

text \<open>
  The body of the \<^verbatim>\<open>for { ... }\<close> loop of \<^verbatim>\<open>startDocker\<close> (docker.go, lines
  112 to 141), one iteration per unfolding. \<open>maxAttempts\<close> is the constant
  \<^verbatim>\<open>maxDockerLaunchAttempts\<close>, which is declared outside this file and therefore a
  parameter. The loop has no bound of its own, so the function is partial: \<open>None\<close>
  stands for a run that never returns. The result is the returned error (\<open>None\<close> for
  \<^verbatim>\<open>nil\<close>) and the trace.
\<close>

partial_function (option) startDocker_loop ::
  "int \<Rightarrow> cmd_oracle \<Rightarrow> cmd_oracle \<Rightarrow> int \<Rightarrow> event list
    \<Rightarrow> (error option \<times> event list) option"
where
  "startDocker_loop maxAttempts psRun startRun attempts tr =
     (let err = psRun (runs psArgs tr); tr1 = tr @ [Run psArgs] in
      if err = None then Some (None, tr1)
      else if attempts > maxAttempts
        then Some (Some (Errorf ''%w: failed starting docker'' ErrLaunch), tr1)
      else
        let err' = startRun (runs startArgs tr1); tr2 = tr1 @ [Run startArgs] in
        if err' \<noteq> None then Some (err', tr2)
        else startDocker_loop maxAttempts psRun startRun (int_inc attempts) (tr2 @ [Sleep 1]))"

declare startDocker_loop.simps [code]

definition startDocker ::
  "int \<Rightarrow> cmd_oracle \<Rightarrow> cmd_oracle \<Rightarrow> (error option \<times> event list) option"
where
  "startDocker maxAttempts psRun startRun = startDocker_loop maxAttempts psRun startRun 0 []"

text \<open>Two oracles for concrete runs: a command that always exits 1, one that always exits 0.\<close>

definition alwaysFails :: cmd_oracle where
  "alwaysFails n = Some (ExitError 1)"

definition alwaysSucceeds :: cmd_oracle where
  "alwaysSucceeds n = None"

text \<open>
  \<open>failsBefore k\<close> fails on the runs before the \<open>k\<close>-th and succeeds from then on;
  \<open>succeedsBefore k e\<close> succeeds on the runs before the \<open>k\<close>-th and fails with \<open>e\<close>
  from then on (runs counted from 0).
\<close>

definition failsBefore :: "nat \<Rightarrow> cmd_oracle" where
  "failsBefore k n = (if n < k then Some (ExitError 1) else None)"

definition succeedsBefore :: "nat \<Rightarrow> error \<Rightarrow> cmd_oracle" where
  "succeedsBefore k e n = (if n < k then None else Some e)"

text \<open>
  The trace of \<open>n\<close> full iterations of the loop: probe, restart, sleep, \<open>n\<close> times.
\<close>

fun rounds :: "nat \<Rightarrow> event list" where
  "rounds 0 = []"
| "rounds (Suc n) = rounds n @ [Run psArgs, Run startArgs, Sleep 1]"

subsection \<open>Strings of the Go standard library\<close>

text \<open>
  A Go string is a sequence of bytes: \<open>string\<close>. \<^verbatim>\<open>strings.TrimSpace\<close> removes
  the leading and the trailing white space "as defined by Unicode": it decodes UTF-8
  from the front and from the back and drops every rune for which
  \<^verbatim>\<open>unicode.IsSpace\<close> holds. \<open>whiteSpace\<close> lists the UTF-8 encodings of those
  runes: U+0009 to U+000D, U+0020, U+0085, U+00A0, U+1680, U+2000 to U+200A, U+2028,
  U+2029, U+202F, U+205F and U+3000. A byte sequence that is not the encoding of such a
  rune (an invalid byte included) stops the trimming.
\<close>

definition nl :: char where
  "nl = CHR 0x0A"

definition whiteSpace :: "string list" where
  "whiteSpace =
    [[CHR 0x09], [CHR 0x0A], [CHR 0x0B], [CHR 0x0C], [CHR 0x0D], [CHR 0x20],
     [CHR 0xC2, CHR 0x85], [CHR 0xC2, CHR 0xA0],
     [CHR 0xE1, CHR 0x9A, CHR 0x80],
     [CHR 0xE2, CHR 0x80, CHR 0x80], [CHR 0xE2, CHR 0x80, CHR 0x81],
     [CHR 0xE2, CHR 0x80, CHR 0x82], [CHR 0xE2, CHR 0x80, CHR 0x83],
     [CHR 0xE2, CHR 0x80, CHR 0x84], [CHR 0xE2, CHR 0x80, CHR 0x85],
     [CHR 0xE2, CHR 0x80, CHR 0x86], [CHR 0xE2, CHR 0x80, CHR 0x87],
     [CHR 0xE2, CHR 0x80, CHR 0x88], [CHR 0xE2, CHR 0x80, CHR 0x89],
     [CHR 0xE2, CHR 0x80, CHR 0x8A],
     [CHR 0xE2, CHR 0x80, CHR 0xA8], [CHR 0xE2, CHR 0x80, CHR 0xA9],
     [CHR 0xE2, CHR 0x80, CHR 0xAF],
     [CHR 0xE2, CHR 0x81, CHR 0x9F],
     [CHR 0xE3, CHR 0x80, CHR 0x80]]"

text \<open>The string starts (ends) with a white space rune.\<close>

definition startsWithSpace :: "string \<Rightarrow> bool" where
  "startsWithSpace s = (\<exists>e\<in>set whiteSpace. prefix e s)"

definition endsWithSpace :: "string \<Rightarrow> bool" where
  "endsWithSpace s = (\<exists>e\<in>set whiteSpace. suffix e s)"

text \<open>The string is nothing but white space runes (the empty string included).\<close>

inductive whitespaceOnly :: "string \<Rightarrow> bool" where
  Nil: "whitespaceOnly []"
| Rune: "e \<in> set whiteSpace \<Longrightarrow> whitespaceOnly s \<Longrightarrow> whitespaceOnly (e @ s)"

text \<open>
  \<^verbatim>\<open>strings.TrimLeftFunc(s, unicode.IsSpace)\<close>: drop white space runes from the front
  until the string starts with something else.
\<close>

function TrimLeft :: "string \<Rightarrow> string" where
  "TrimLeft s =
     (case find (\<lambda>e. prefix e s) whiteSpace of
        None \<Rightarrow> s
      | Some e \<Rightarrow> TrimLeft (drop (length e) s))"
  by pat_completeness auto
termination
proof (relation "measure length")
  show "wf (measure length)" by simp
next
  fix s :: string and e
  assume "find (\<lambda>e. prefix e s) whiteSpace = Some e"
  then have "e \<in> set whiteSpace" and "prefix e s"
    by (auto simp add: find_Some_iff)
  then have "e \<noteq> []" and "length e \<le> length s"
    by (auto simp add: whiteSpace_def prefix_length_le)
  then show "(drop (length e) s, s) \<in> measure length"
    by (cases e) auto
qed

text \<open>\<^verbatim>\<open>strings.TrimRightFunc(s, unicode.IsSpace)\<close>: the same from the back.\<close>

function TrimRight :: "string \<Rightarrow> string" where
  "TrimRight s =
     (case find (\<lambda>e. suffix e s) whiteSpace of
        None \<Rightarrow> s
      | Some e \<Rightarrow> TrimRight (take (length s - length e) s))"
  by pat_completeness auto
termination
proof (relation "measure length")
  show "wf (measure length)" by simp
next
  fix s :: string and e
  assume "find (\<lambda>e. suffix e s) whiteSpace = Some e"
  then have "e \<in> set whiteSpace" and "suffix e s"
    by (auto simp add: find_Some_iff)
  then have "e \<noteq> []" and "length e \<le> length s"
    by (auto simp add: whiteSpace_def suffix_length_le)
  then show "(take (length s - length e) s, s) \<in> measure length"
    by (cases e) auto
qed

declare TrimLeft.simps [simp del] TrimRight.simps [simp del]

definition TrimSpace :: "string \<Rightarrow> string" where
  "TrimSpace s = TrimRight (TrimLeft s)"

text \<open>
  \<^verbatim>\<open>strings.Split(s, sep)\<close> for a separator of one byte, as the two calls of this file
  have it (a newline, a comma): the substrings between the separators, in order; a
  string without separator (the empty string too) gives the one-element list of itself.
\<close>

function Split :: "string \<Rightarrow> char \<Rightarrow> string list" where
  "Split s sep =
     (if sep \<in> set s
      then takeWhile (\<lambda>c. c \<noteq> sep) s # Split (tl (dropWhile (\<lambda>c. c \<noteq> sep) s)) sep
      else [s])"
  by pat_completeness auto
termination
proof (relation "measure (\<lambda>(s, sep). length s)")
  show "wf (measure (\<lambda>(s, sep). length s))" by simp
next
  fix s :: string and sep
  assume "sep \<in> set s"
  then have "dropWhile (\<lambda>c. c \<noteq> sep) s \<noteq> []"
    by (auto simp add: dropWhile_eq_Nil_conv)
  then have "length (tl (dropWhile (\<lambda>c. c \<noteq> sep) s)) < length (dropWhile (\<lambda>c. c \<noteq> sep) s)"
    by (cases "dropWhile (\<lambda>c. c \<noteq> sep) s") simp_all
  also have "\<dots> \<le> length s"
    by (rule length_dropWhile_le)
  finally show "((tl (dropWhile (\<lambda>c. c \<noteq> sep) s), sep), (s, sep))
      \<in> measure (\<lambda>(s, sep). length s)"
    by simp
qed

declare Split.simps [simp del]

subsection \<open>The container inventory\<close>

text \<open>
  \<^verbatim>\<open>exec.CommandContext(ctx, "docker", args...).Output()\<close> runs the runtime's command
  line tool and hands back what it wrote to its standard output, or an error when it
  could not be run or exited non-zero. That answer is the environment's: a function
  from the arguments to the outcome.
\<close>

type_synonym docker_output = "string list \<Rightarrow> error + string"

text \<open>A runtime that prints \<open>out\<close> whatever it is asked, and one that fails with \<open>e\<close>.\<close>

definition prints :: "string \<Rightarrow> docker_output" where
  "prints out args = Inr out"

definition failsWith :: "error \<Rightarrow> docker_output" where
  "failsWith e args = Inl e"

text \<open>\<^verbatim>\<open>getContainerIDs\<close> (lines 144 to 173): the arguments, the range loop, the function.\<close>

definition psQuietArgs :: "bool \<Rightarrow> string list" where
  "psQuietArgs all = [''ps''] @ (if all then [''-a''] else []) @ [''--quiet'']"

fun appendIDs :: "string list \<Rightarrow> string list \<Rightarrow> string list" where
  "appendIDs containerIDs [] = containerIDs"
| "appendIDs containerIDs (line # containerIDLines) =
     (let trimmedLine = TrimSpace line in
      if trimmedLine \<noteq> [] then appendIDs (containerIDs @ [trimmedLine]) containerIDLines
      else appendIDs containerIDs containerIDLines)"

definition getContainerIDs :: "docker_output \<Rightarrow> bool \<Rightarrow> error + string list" where
  "getContainerIDs dockerOutput all =
     (case dockerOutput (psQuietArgs all) of
        Inl err \<Rightarrow> Inl err
      | Inr output \<Rightarrow> Inr (appendIDs [] (Split output nl)))"

text \<open>
  The specification's words for the result: the trimmed, non-empty lines of the output,
  in the order of the lines.
\<close>

definition trimmedNonEmptyLines :: "string \<Rightarrow> string list" where
  "trimmedNonEmptyLines output = filter (\<lambda>l. l \<noteq> []) (map TrimSpace (Split output nl))"

text \<open>\<^verbatim>\<open>getContainerIDForNodeName\<close> (lines 238 to 254).\<close>

definition filterArgs :: "string \<Rightarrow> string list" where
  "filterArgs nodeName = [''ps'', ''--quiet'', ''--filter'', ''name='' @ nodeName]"

definition getContainerIDForNodeName :: "docker_output \<Rightarrow> string \<Rightarrow> error + string" where
  "getContainerIDForNodeName dockerOutput nodeName =
     (case dockerOutput (filterArgs nodeName) of
        Inl err \<Rightarrow> Inl err
      | Inr output \<Rightarrow> Inr (TrimSpace output))"

text \<open>\<^verbatim>\<open>getContainerAddr\<close> (lines 256 to 272).\<close>

definition addrFormat :: string where
  "addrFormat = ''{{range.NetworkSettings.Networks}}{{.IPAddress}}{{end}}''"

definition inspectArgs :: "string \<Rightarrow> string list" where
  "inspectArgs containerID = [''inspect'', ''--format'', addrFormat, containerID]"

definition getContainerAddr :: "docker_output \<Rightarrow> string \<Rightarrow> error + string" where
  "getContainerAddr dockerOutput containerID =
     (case dockerOutput (inspectArgs containerID) of
        Inl err \<Rightarrow> Inl err
      | Inr output \<Rightarrow> Inr (TrimSpace output))"

text \<open>
  What the runtime prints for \<open>addrFormat\<close>. The container's
  \<^verbatim>\<open>NetworkSettings.Networks\<close> is a map from network name to endpoint; the template's
  \<^verbatim>\<open>range\<close> visits every entry (in the order of the names) and prints its
  \<^verbatim>\<open>IPAddress\<close>, with nothing between two entries; the runtime ends the line. The
  networks are given as the list of (name, address) pairs in that order.
\<close>

definition inspectPrints :: "(string \<times> string) list \<Rightarrow> string" where
  "inspectPrints networks = concat (map snd networks) @ [nl]"

text \<open>
  A token: a non-empty string whose first and last bytes occur in no white space rune
  (a container identifier or a dotted address, say).
\<close>

definition token :: "string \<Rightarrow> bool" where
  "token t = (t \<noteq> [] \<and> hd t \<notin> set (concat whiteSpace) \<and> last t \<notin> set (concat whiteSpace))"

subsection \<open>printContainerLogs\<close>

text \<open>
  \<^verbatim>\<open>printContainerLogs\<close> (lines 175 to 198): the range loop over the identifiers. Each
  iteration runs \<^verbatim>\<open>docker logs <id>\<close> to its end and, when the run fails, hands one
  warning to the logger. The outcome of the \<open>n\<close>-th run is the oracle's; \<open>n\<close> is the
  number of commands run so far. The function returns nothing: its result is the trace.
\<close>

fun isRun :: "event \<Rightarrow> bool" where
  "isRun (Run argv) = True"
| "isRun ev = False"

fun isWarnf :: "event \<Rightarrow> bool" where
  "isWarnf (Warnf f args) = True"
| "isWarnf ev = False"

fun printContainerLogs_loop :: "cmd_oracle \<Rightarrow> string list \<Rightarrow> event list \<Rightarrow> event list" where
  "printContainerLogs_loop cmdRun [] tr = tr"
| "printContainerLogs_loop cmdRun (containerID # rest) tr =
     (let args = [''logs'', containerID];
          err = cmdRun (length (filter isRun tr));
          tr1 = tr @ [Run (''docker'' # args)]
      in case err of
           None \<Rightarrow> printContainerLogs_loop cmdRun rest tr1
         | Some e \<Rightarrow>
             printContainerLogs_loop cmdRun rest
               (tr1 @ [Warnf ''printing node logs for container id %q failed, err: %s''
                         [Str containerID, Err e]]))"

definition printContainerLogs :: "cmd_oracle \<Rightarrow> string list \<Rightarrow> event list" where
  "printContainerLogs cmdRun containerIDs = printContainerLogs_loop cmdRun containerIDs []"

text \<open>An oracle that fails with \<open>e\<close> on the \<open>j\<close>-th run only.\<close>

definition failsOnlyAt :: "nat \<Rightarrow> error \<Rightarrow> cmd_oracle" where
  "failsOnlyAt j e n = (if n = j then Some e else None)"

text \<open>
  The warnings a run over \<open>containerIDs\<close> is expected to leave when the first of its
  commands is the \<open>n\<close>-th: one for each identifier whose command fails.
\<close>

fun warningsFrom :: "cmd_oracle \<Rightarrow> nat \<Rightarrow> string list \<Rightarrow> event list" where
  "warningsFrom cmdRun n [] = []"
| "warningsFrom cmdRun n (containerID # rest) =
     (case cmdRun n of
        None \<Rightarrow> []
      | Some e \<Rightarrow> [Warnf ''printing node logs for container id %q failed, err: %s''
                     [Str containerID, Err e]])
     @ warningsFrom cmdRun (Suc n) rest"

subsection \<open>handleInsecureRegistries\<close>

text \<open>
  The constants of the \<^verbatim>\<open>clabernetesconstants\<close> package that the function reads are
  declared outside this file: the names of its two environment variables, the string it
  compares the privileged flag with, and the permission bits of the written file. They
  are parameters of the model.
\<close>

record launcher_constants =
  LauncherInsecureRegistries :: string
  LauncherPrivilegedEnv :: string
  ConstTrue :: string
  PermissionsEveryoneReadWriteOwnerExecute :: nat

definition dockerDaemonConfig :: string where
  "dockerDaemonConfig = ''/etc/docker/daemon.json''"

definition vfsStorageDriver :: string where
  "vfsStorageDriver = ''vfs''"

definition overlayStorageDriver :: string where
  "overlayStorageDriver = ''overlay2''"

record templateVars =
  StorageDriver :: string
  InsecureRegistries :: string

text \<open>
  \<^verbatim>\<open>strings.EqualFold\<close> on bytes: equality up to the case of the ASCII letters. This
  is Go's function whenever one of the two strings is made of ASCII characters other
  than the letters k and s (the only ASCII letters that Unicode folds together with a
  character outside ASCII), as "true" is.
\<close>

definition asciiLower :: "char \<Rightarrow> char" where
  "asciiLower c =
     (let n = (of_char c :: nat) in if 65 \<le> n \<and> n \<le> 90 then char_of (n + 32) else c)"

definition EqualFold :: "string \<Rightarrow> string \<Rightarrow> bool" where
  "EqualFold s t = (map asciiLower s = map asciiLower t)"

text \<open>\<^verbatim>\<open>strings.Join(elems, sep)\<close>.\<close>

fun Join :: "string list \<Rightarrow> string \<Rightarrow> string" where
  "Join [] sep = []"
| "Join [x] sep = x"
| "Join (x # y # ys) sep = x @ sep @ Join (y # ys) sep"

text \<open>
  \<^verbatim>\<open>handleInsecureRegistries\<close> (lines 31 to 87). \<open>getenv\<close> is \<^verbatim>\<open>os.Getenv\<close>
  (the empty string for a variable that is not set); \<open>quote\<close> is
  \<^verbatim>\<open>fmt.Sprintf("%q", _)\<close> of the standard library; \<open>parsed\<close> is the outcome of
  \<^verbatim>\<open>template.ParseFS\<close> on the embedded asset, which is not part of this file: an
  error, or the template as the function from its variables to what
  \<^verbatim>\<open>t.Execute\<close> renders (or its error); \<open>writeErr\<close> is the outcome of
  \<^verbatim>\<open>os.WriteFile\<close>. The result is the returned error and the trace.
\<close>

definition handleInsecureRegistries ::
  "launcher_constants \<Rightarrow> (string \<Rightarrow> string) \<Rightarrow> (string \<Rightarrow> string)
    \<Rightarrow> error + (templateVars \<Rightarrow> error + string) \<Rightarrow> error option
    \<Rightarrow> error option \<times> event list"
where
  "handleInsecureRegistries c getenv quote parsed writeErr =
     (let insecureRegistries = getenv (LauncherInsecureRegistries c) in
      if insecureRegistries = [] then (None, [])
      else
        let splitRegistries = Split insecureRegistries (CHR '','');
            quotedRegistries = map quote splitRegistries;
            templateVars = \<lparr>StorageDriver = vfsStorageDriver,
                            InsecureRegistries = Join quotedRegistries '',''\<rparr>;
            templateVars =
              (if \<not> EqualFold (getenv (LauncherPrivilegedEnv c)) (ConstTrue c)
               then templateVars\<lparr>StorageDriver := overlayStorageDriver\<rparr>
               else templateVars)
        in case parsed of
             Inl err \<Rightarrow> (Some err, [])
           | Inr t \<Rightarrow>
               (case t templateVars of
                  Inl err \<Rightarrow> (Some err, [])
                | Inr rendered \<Rightarrow>
                    (writeErr,
                     [WriteFile dockerDaemonConfig rendered
                        (PermissionsEveryoneReadWriteOwnerExecute c)])))"

text \<open>
  For concrete runs: one choice of the constants, an environment with the two variables
  set, the quoting of a name without special characters, and a template that prints its
  two variables.
\<close>

definition someConstants :: launcher_constants where
  "someConstants =
     \<lparr>LauncherInsecureRegistries = ''LAUNCHER_INSECURE_REGISTRIES'',
      LauncherPrivilegedEnv = ''LAUNCHER_PRIVILEGED'',
      ConstTrue = ''true'',
      PermissionsEveryoneReadWriteOwnerExecute = 502\<rparr>"

definition envWith :: "string \<Rightarrow> string \<Rightarrow> string \<Rightarrow> string" where
  "envWith registries privileged name =
     (if name = ''LAUNCHER_INSECURE_REGISTRIES'' then registries
      else if name = ''LAUNCHER_PRIVILEGED'' then privileged
      else [])"

definition plainQuote :: "string \<Rightarrow> string" where
  "plainQuote s = [CHR 0x22] @ s @ [CHR 0x22]"

definition showVars :: "templateVars \<Rightarrow> error + string" where
  "showVars v = Inr (StorageDriver v @ '' '' @ InsecureRegistries v)"

subsection \<open>tailContainerLogs\<close>

text \<open>
  \<^verbatim>\<open>tailContainerLogs\<close> (lines 200 to 236) creates the log file, starts one goroutine
  per identifier and returns; the goroutines run on after it has returned. A run is
  therefore not a function of the inputs but a sequence of steps, of the caller and of
  the goroutines, in any order the scheduler picks.

  The variable \<^verbatim>\<open>err\<close> is declared once, at line 206. The function literal of line
  214 does not declare one of its own: line 226 assigns to the caller's variable
  (\<^verbatim>\<open>err = cmd.Run()\<close>), and lines 227 and 229 read it again. All goroutines share
  it, so the assignment and the two reads are steps of their own, and steps of other
  goroutines can come between them.

  The state of a run: where the caller is (before \<^verbatim>\<open>os.Create\<close> with its argument,
  in the range loop with the identifiers it has still to visit, or returned with its
  result); the shared variable \<^verbatim>\<open>err\<close>; the goroutines started so far, each with its
  identifier and the place it is at (its command is running; at the test of line 227;
  at the call of line 228; finished); the trace; and a record of the commands that have
  ended, each with its own outcome (a history of the run, not a variable of the
  program).
\<close>

datatype tail_pc = AtCreate "string list" | AtRange "string list" | Returned "error option"

datatype task_pc = Following | AtCheck | AtWarn | Finished

record tail_state =
  pc :: tail_pc
  err_var :: "error option"
  tasks :: "(string \<times> task_pc) list"
  events :: "event list"
  ended :: "(string \<times> error option) list"

definition tail_init :: "string list \<Rightarrow> tail_state" where
  "tail_init containerIDs =
     \<lparr>pc = AtCreate containerIDs, err_var = None, tasks = [], events = [], ended = []\<rparr>"

definition followArgs :: "string \<Rightarrow> string list" where
  "followArgs containerID = [''docker'', ''logs'', ''-f'', containerID]"

text \<open>The error handed to \<^verbatim>\<open>Warnf\<close> is the value of \<^verbatim>\<open>err\<close> at the call.\<close>

fun errArg :: "error option \<Rightarrow> fmt_arg" where
  "errArg None = NilErr"
| "errArg (Some e) = Err e"

text \<open>
  The steps. \<open>createErr\<close> is the outcome of \<^verbatim>\<open>os.Create("node.log")\<close>. The caller:
  lines 206 to 209 (the file cannot be created: return the error), lines 206 to 211 (it
  can), line 214 (start the goroutine of the next identifier), line 235 (the loop is
  over: return \<^verbatim>\<open>nil\<close>, whatever the goroutines are doing). The goroutine at
  position \<open>i\<close>: line 226 (its command ends with some outcome, which is stored in
  \<^verbatim>\<open>err\<close>), line 227 (\<^verbatim>\<open>err\<close> is read and tested), lines 228 to 230
  (\<^verbatim>\<open>err\<close> is read again and handed to the logger with the goroutine's own
  identifier). A goroutine's step asks nothing of the caller: it can happen before and
  after the return.
\<close>

inductive tail_step :: "error option \<Rightarrow> tail_state \<Rightarrow> tail_state \<Rightarrow> bool"
  for createErr :: "error option"
where
  create_fails:
    "pc s = AtCreate containerIDs \<Longrightarrow> createErr = Some e
      \<Longrightarrow> s' = s\<lparr>pc := Returned (Some e), err_var := Some e\<rparr>
      \<Longrightarrow> tail_step createErr s s'"
| create_ok:
    "pc s = AtCreate containerIDs \<Longrightarrow> createErr = None
      \<Longrightarrow> s' = s\<lparr>pc := AtRange containerIDs, err_var := None\<rparr>
      \<Longrightarrow> tail_step createErr s s'"
| launch:
    "pc s = AtRange (containerID # rest)
      \<Longrightarrow> s' = s\<lparr>pc := AtRange rest,
                  tasks := tasks s @ [(containerID, Following)],
                  events := events s @ [Go (followArgs containerID)]\<rparr>
      \<Longrightarrow> tail_step createErr s s'"
| return_nil:
    "pc s = AtRange [] \<Longrightarrow> s' = s\<lparr>pc := Returned None\<rparr>
      \<Longrightarrow> tail_step createErr s s'"
| run_ends:
    "i < length (tasks s) \<Longrightarrow> tasks s ! i = (containerID, Following)
      \<Longrightarrow> s' = s\<lparr>err_var := outcome,
                  tasks := (tasks s)[i := (containerID, AtCheck)],
                  events := events s @ [Run (followArgs containerID)],
                  ended := ended s @ [(containerID, outcome)]\<rparr>
      \<Longrightarrow> tail_step createErr s s'"
| check_nil:
    "i < length (tasks s) \<Longrightarrow> tasks s ! i = (containerID, AtCheck)
      \<Longrightarrow> err_var s = None
      \<Longrightarrow> s' = s\<lparr>tasks := (tasks s)[i := (containerID, Finished)]\<rparr>
      \<Longrightarrow> tail_step createErr s s'"
| check_err:
    "i < length (tasks s) \<Longrightarrow> tasks s ! i = (containerID, AtCheck)
      \<Longrightarrow> err_var s = Some e
      \<Longrightarrow> s' = s\<lparr>tasks := (tasks s)[i := (containerID, AtWarn)]\<rparr>
      \<Longrightarrow> tail_step createErr s s'"
| warn:
    "i < length (tasks s) \<Longrightarrow> tasks s ! i = (containerID, AtWarn)
      \<Longrightarrow> s' = s\<lparr>tasks := (tasks s)[i := (containerID, Finished)],
                  events := events s
                    @ [Warnf ''tailing node logs for container id %q failed, err: %s''
                         [Str containerID, errArg (err_var s)]]\<rparr>
      \<Longrightarrow> tail_step createErr s s'"

inductive reachable :: "error option \<Rightarrow> string list \<Rightarrow> tail_state \<Rightarrow> bool"
  for createErr :: "error option" and containerIDs :: "string list"
where
  start: "reachable createErr containerIDs (tail_init containerIDs)"
| step: "reachable createErr containerIDs s \<Longrightarrow> tail_step createErr s s'
      \<Longrightarrow> reachable createErr containerIDs s'"

section \<open>Facts about the model\<close>

subsection \<open>Facts about the loop\<close>

lemma psArgs_neq_startArgs: "psArgs \<noteq> startArgs"
  by (simp add: psArgs_def startArgs_def)

lemma runs_append: "runs argv (xs @ ys) = runs argv xs + runs argv ys"
  by (induction xs) (simp_all add: runs_def)

lemma runs_psArgs_rounds: "runs psArgs (rounds n) = n"
  using psArgs_neq_startArgs by (induction n) (simp_all add: runs_append, simp_all add: runs_def)

lemma runs_startArgs_rounds: "runs startArgs (rounds n) = n"
  using psArgs_neq_startArgs by (induction n) (simp_all add: runs_append, auto simp add: runs_def)

lemma int_inc_no_wrap: "a < int_max \<Longrightarrow> int_inc a = a + 1"
  by (simp add: int_inc_def)

lemma attemptsAfter_0: "attemptsAfter 0 = 0"
  by (simp add: attemptsAfter_def)

lemma attemptsAfter_Suc: "attemptsAfter (Suc n) = int_inc (attemptsAfter n)"
  by (simp add: attemptsAfter_def)

lemma attemptsAfter_no_wrap: "int n \<le> int_max \<Longrightarrow> attemptsAfter n = int n"
proof (induction n)
  case 0
  show ?case by (simp add: attemptsAfter_0)
next
  case (Suc n)
  then have "attemptsAfter n = int n" and "int n < int_max"
    by simp_all
  then show ?case
    by (simp add: attemptsAfter_Suc int_inc_no_wrap)
qed

text \<open>
  While the probe keeps failing, the counter stays within the ceiling and the restart
  keeps succeeding, the run from the start is the run from the state after \<open>j\<close>
  iterations.
\<close>

lemma startDocker_loop_iterate:
  assumes "\<forall>i<j. psRun i \<noteq> None"
    and "\<forall>i<j. startRun i = None"
    and "\<forall>i<j. attemptsAfter i \<le> maxAttempts"
  shows "startDocker_loop maxAttempts psRun startRun 0 [] =
         startDocker_loop maxAttempts psRun startRun (attemptsAfter j) (rounds j)"
  using assms
proof (induction j)
  case 0
  show ?case by (simp add: attemptsAfter_0)
next
  case (Suc j)
  have ih: "startDocker_loop maxAttempts psRun startRun 0 [] =
            startDocker_loop maxAttempts psRun startRun (attemptsAfter j) (rounds j)"
    using Suc by simp
  obtain e where ps: "psRun j = Some e"
    using Suc.prems by auto
  have st: "startRun j = None"
    using Suc.prems by simp
  have le: "\<not> attemptsAfter j > maxAttempts"
    using Suc.prems by (simp add: not_less)
  have "startDocker_loop maxAttempts psRun startRun (attemptsAfter j) (rounds j) =
        startDocker_loop maxAttempts psRun startRun (int_inc (attemptsAfter j))
          (rounds j @ [Run psArgs, Run startArgs, Sleep 1])"
    using ps st le
    by (subst startDocker_loop.simps)
       (simp add: Let_def runs_append runs_psArgs_rounds runs_startArgs_rounds,
        simp add: runs_def psArgs_neq_startArgs)
  then show ?case
    using ih by (simp add: attemptsAfter_Suc)
qed

text \<open>The three ways an iteration can end the run, after \<open>j\<close> full iterations.\<close>

lemma startDocker_returns_ready:
  assumes "\<forall>i<j. psRun i \<noteq> None"
    and "\<forall>i<j. startRun i = None"
    and "\<forall>i<j. attemptsAfter i \<le> maxAttempts"
    and "psRun j = None"
  shows "startDocker maxAttempts psRun startRun = Some (None, rounds j @ [Run psArgs])"
proof -
  have "startDocker_loop maxAttempts psRun startRun (attemptsAfter j) (rounds j) =
        Some (None, rounds j @ [Run psArgs])"
    using assms(4)
    by (subst startDocker_loop.simps) (simp add: Let_def runs_psArgs_rounds)
  then show ?thesis
    using startDocker_loop_iterate [OF assms(1-3)] by (simp add: startDocker_def)
qed

lemma startDocker_returns_exhausted:
  assumes "\<forall>i<j. psRun i \<noteq> None"
    and "\<forall>i<j. startRun i = None"
    and "\<forall>i<j. attemptsAfter i \<le> maxAttempts"
    and "psRun j \<noteq> None"
    and "attemptsAfter j > maxAttempts"
  shows "startDocker maxAttempts psRun startRun =
         Some (Some (Errorf ''%w: failed starting docker'' ErrLaunch), rounds j @ [Run psArgs])"
proof -
  obtain e where "psRun j = Some e"
    using assms(4) by auto
  then have "startDocker_loop maxAttempts psRun startRun (attemptsAfter j) (rounds j) =
        Some (Some (Errorf ''%w: failed starting docker'' ErrLaunch), rounds j @ [Run psArgs])"
    using assms(5)
    by (subst startDocker_loop.simps) (simp add: Let_def runs_psArgs_rounds)
  then show ?thesis
    using startDocker_loop_iterate [OF assms(1-3)] by (simp add: startDocker_def)
qed

lemma startDocker_returns_restart_error:
  assumes "\<forall>i<j. psRun i \<noteq> None"
    and "\<forall>i<j. startRun i = None"
    and "\<forall>i<j. attemptsAfter i \<le> maxAttempts"
    and "psRun j \<noteq> None"
    and "attemptsAfter j \<le> maxAttempts"
    and "startRun j = Some e"
  shows "startDocker maxAttempts psRun startRun =
         Some (Some e, rounds j @ [Run psArgs, Run startArgs])"
proof -
  obtain e' where "psRun j = Some e'"
    using assms(4) by auto
  then have "startDocker_loop maxAttempts psRun startRun (attemptsAfter j) (rounds j) =
        Some (Some e, rounds j @ [Run psArgs, Run startArgs])"
    using assms(5,6)
    by (subst startDocker_loop.simps)
       (simp add: Let_def runs_append runs_psArgs_rounds runs_startArgs_rounds,
        simp add: runs_def psArgs_neq_startArgs)
  then show ?thesis
    using startDocker_loop_iterate [OF assms(1-3)] by (simp add: startDocker_def)
qed

lemma runs_ready_trace:
  "runs psArgs (rounds j @ [Run psArgs]) = Suc j \<and> runs startArgs (rounds j @ [Run psArgs]) = j"
  using psArgs_neq_startArgs
  by (simp add: runs_append runs_psArgs_rounds runs_startArgs_rounds) (auto simp add: runs_def)

subsection \<open>Facts about trimming\<close>

lemma whiteSpace_nonempty: "e \<in> set whiteSpace \<Longrightarrow> e \<noteq> []"
  by (auto simp add: whiteSpace_def)

lemma whiteSpace_prefix_free:
  "\<forall>e\<in>set whiteSpace. \<forall>e'\<in>set whiteSpace. prefix e e' \<longrightarrow> e = e'"
  by (simp add: whiteSpace_def)

lemma whiteSpace_suffix_free:
  "\<forall>e\<in>set whiteSpace. \<forall>e'\<in>set whiteSpace. suffix e e' \<longrightarrow> e = e'"
  by (simp add: whiteSpace_def suffix_Cons)

lemma find_prefix_None: "find (\<lambda>e. prefix e s) whiteSpace = None \<longleftrightarrow> \<not> startsWithSpace s"
  by (auto simp add: find_None_iff startsWithSpace_def)

lemma find_suffix_None: "find (\<lambda>e. suffix e s) whiteSpace = None \<longleftrightarrow> \<not> endsWithSpace s"
  by (auto simp add: find_None_iff endsWithSpace_def)

lemma TrimLeft_plain: "\<not> startsWithSpace s \<Longrightarrow> TrimLeft s = s"
  by (subst TrimLeft.simps) (simp add: find_prefix_None [symmetric])

lemma TrimRight_plain: "\<not> endsWithSpace s \<Longrightarrow> TrimRight s = s"
  by (subst TrimRight.simps) (simp add: find_suffix_None [symmetric])

lemma find_prefix_rune:
  assumes "e \<in> set whiteSpace"
  shows "find (\<lambda>x. prefix x (e @ s)) whiteSpace = Some e"
proof (cases "find (\<lambda>x. prefix x (e @ s)) whiteSpace")
  case None
  then show ?thesis
    using assms by (metis find_None_iff prefixI)
next
  case (Some e')
  then have e': "e' \<in> set whiteSpace" and "prefix e' (e @ s)"
    by (auto simp add: find_Some_iff)
  then have "prefix e e' \<or> prefix e' e"
    by (meson prefixI prefix_same_cases)
  then have "e' = e"
    using whiteSpace_prefix_free assms e' by blast
  then show ?thesis using Some by simp
qed

lemma find_suffix_rune:
  assumes "e \<in> set whiteSpace"
  shows "find (\<lambda>x. suffix x (s @ e)) whiteSpace = Some e"
proof (cases "find (\<lambda>x. suffix x (s @ e)) whiteSpace")
  case None
  then show ?thesis
    using assms by (metis find_None_iff suffixI)
next
  case (Some e')
  then have e': "e' \<in> set whiteSpace" and "suffix e' (s @ e)"
    by (auto simp add: find_Some_iff)
  then have "suffix e e' \<or> suffix e' e"
    by (meson suffixI suffix_same_cases)
  then have "e' = e"
    using whiteSpace_suffix_free assms e' by blast
  then show ?thesis using Some by simp
qed

lemma TrimLeft_rune: "e \<in> set whiteSpace \<Longrightarrow> TrimLeft (e @ s) = TrimLeft s"
  by (subst TrimLeft.simps) (simp add: find_prefix_rune)

lemma TrimRight_rune: "e \<in> set whiteSpace \<Longrightarrow> TrimRight (s @ e) = TrimRight s"
  by (subst TrimRight.simps) (simp add: find_suffix_rune)

lemma TrimLeft_whitespaceOnly: "whitespaceOnly pre \<Longrightarrow> TrimLeft (pre @ s) = TrimLeft s"
  by (induction pre rule: whitespaceOnly.induct) (simp_all add: TrimLeft_rune)

lemma TrimRight_whitespaceOnly: "whitespaceOnly post \<Longrightarrow> TrimRight (s @ post) = TrimRight s"
proof (induction post arbitrary: s rule: whitespaceOnly.induct)
  case Nil
  show ?case by simp
next
  case (Rune e post)
  have "TrimRight (s @ e @ post) = TrimRight ((s @ e) @ post)"
    by simp
  also have "\<dots> = TrimRight (s @ e)"
    by (rule Rune.IH)
  also have "\<dots> = TrimRight s"
    using Rune.hyps(1) by (rule TrimRight_rune)
  finally show ?case .
qed

lemma TrimLeft_not_startsWithSpace: "\<not> startsWithSpace (TrimLeft s)"
proof (induction s rule: TrimLeft.induct)
  case (1 s)
  show ?case
  proof (cases "find (\<lambda>e. prefix e s) whiteSpace")
    case None
    then have "TrimLeft s = s"
      by (subst TrimLeft.simps) simp
    then show ?thesis
      using None by (simp add: find_prefix_None)
  next
    case (Some e)
    then have "TrimLeft s = TrimLeft (drop (length e) s)"
      by (subst TrimLeft.simps) simp
    then show ?thesis
      using "1.IH" [OF Some] by simp
  qed
qed

lemma TrimRight_not_endsWithSpace: "\<not> endsWithSpace (TrimRight s)"
proof (induction s rule: TrimRight.induct)
  case (1 s)
  show ?case
  proof (cases "find (\<lambda>e. suffix e s) whiteSpace")
    case None
    then have "TrimRight s = s"
      by (subst TrimRight.simps) simp
    then show ?thesis
      using None by (simp add: find_suffix_None)
  next
    case (Some e)
    then have "TrimRight s = TrimRight (take (length s - length e) s)"
      by (subst TrimRight.simps) simp
    then show ?thesis
      using "1.IH" [OF Some] by simp
  qed
qed

lemma TrimRight_prefix: "prefix (TrimRight s) s"
proof (induction s rule: TrimRight.induct)
  case (1 s)
  show ?case
  proof (cases "find (\<lambda>e. suffix e s) whiteSpace")
    case None
    then have "TrimRight s = s"
      by (subst TrimRight.simps) simp
    then show ?thesis by simp
  next
    case (Some e)
    then have "TrimRight s = TrimRight (take (length s - length e) s)"
      by (subst TrimRight.simps) simp
    moreover have "prefix (take (length s - length e) s) s"
      by (rule take_is_prefix)
    ultimately show ?thesis
      using "1.IH" [OF Some] by (metis prefix_order.trans)
  qed
qed

lemma startsWithSpace_prefix: "startsWithSpace t \<Longrightarrow> prefix t u \<Longrightarrow> startsWithSpace u"
  unfolding startsWithSpace_def by (meson prefix_order.trans)

lemma TrimSpace_not_startsWithSpace: "\<not> startsWithSpace (TrimSpace s)"
  using TrimLeft_not_startsWithSpace [of s] TrimRight_prefix [of "TrimLeft s"]
    startsWithSpace_prefix [of "TrimRight (TrimLeft s)" "TrimLeft s"]
  by (auto simp add: TrimSpace_def)

lemma TrimSpace_not_endsWithSpace: "\<not> endsWithSpace (TrimSpace s)"
  by (simp add: TrimSpace_def TrimRight_not_endsWithSpace)

lemma whitespaceOnly_startsWithSpace: "whitespaceOnly s \<Longrightarrow> s \<noteq> [] \<Longrightarrow> startsWithSpace s"
proof (induction s rule: whitespaceOnly.induct)
  case Nil
  then show ?case by simp
next
  case (Rune e s)
  then show ?case
    unfolding startsWithSpace_def by (meson prefixI)
qed

lemma TrimSpace_not_whitespaceOnly: "TrimSpace s \<noteq> [] \<Longrightarrow> \<not> whitespaceOnly (TrimSpace s)"
  using whitespaceOnly_startsWithSpace TrimSpace_not_startsWithSpace by blast

lemma TrimSpace_idem: "TrimSpace (TrimSpace s) = TrimSpace s"
proof -
  have "TrimLeft (TrimSpace s) = TrimSpace s"
    by (rule TrimLeft_plain [OF TrimSpace_not_startsWithSpace])
  moreover have "TrimRight (TrimSpace s) = TrimSpace s"
    by (rule TrimRight_plain [OF TrimSpace_not_endsWithSpace])
  ultimately have "TrimRight (TrimLeft (TrimSpace s)) = TrimSpace s"
    by simp
  then show ?thesis
    by (subst TrimSpace_def)
qed

text \<open>What trimming removes is white space, and nothing but white space is removed.\<close>

lemma whitespaceOnly_append:
  "whitespaceOnly a \<Longrightarrow> whitespaceOnly b \<Longrightarrow> whitespaceOnly (a @ b)"
  by (induction a rule: whitespaceOnly.induct) (simp_all add: whitespaceOnly.Rune)

lemma whitespaceOnly_rune: "e \<in> set whiteSpace \<Longrightarrow> whitespaceOnly e"
  using whitespaceOnly.Rune [of e "[]"] by (simp add: whitespaceOnly.Nil)

lemma TrimLeft_decomp: "\<exists>pre. whitespaceOnly pre \<and> s = pre @ TrimLeft s"
proof (induction s rule: TrimLeft.induct)
  case (1 s)
  show ?case
  proof (cases "find (\<lambda>e. prefix e s) whiteSpace")
    case None
    then have "TrimLeft s = s"
      by (subst TrimLeft.simps) simp
    then have "whitespaceOnly [] \<and> s = [] @ TrimLeft s"
      by (simp add: whitespaceOnly.Nil)
    then show ?thesis by blast
  next
    case (Some e)
    then have e: "e \<in> set whiteSpace" and "prefix e s"
      by (auto simp add: find_Some_iff)
    then have s: "s = e @ drop (length e) s"
      by (metis append_eq_conv_conj prefix_def)
    have eq: "TrimLeft s = TrimLeft (drop (length e) s)"
      using Some by (subst TrimLeft.simps) simp
    obtain pre where pre: "whitespaceOnly pre"
      and rest: "drop (length e) s = pre @ TrimLeft (drop (length e) s)"
      using "1.IH" [OF Some] by blast
    have "whitespaceOnly (e @ pre)"
      using e pre by (rule whitespaceOnly.Rune)
    moreover have "s = (e @ pre) @ TrimLeft s"
      using s rest eq by (metis append.assoc)
    ultimately show ?thesis by blast
  qed
qed

lemma TrimRight_decomp: "\<exists>post. whitespaceOnly post \<and> s = TrimRight s @ post"
proof (induction s rule: TrimRight.induct)
  case (1 s)
  show ?case
  proof (cases "find (\<lambda>e. suffix e s) whiteSpace")
    case None
    then have "TrimRight s = s"
      by (subst TrimRight.simps) simp
    then have "whitespaceOnly [] \<and> s = TrimRight s @ []"
      by (simp add: whitespaceOnly.Nil)
    then show ?thesis by blast
  next
    case (Some e)
    then have e: "e \<in> set whiteSpace" and "suffix e s"
      by (auto simp add: find_Some_iff)
    then have s: "s = take (length s - length e) s @ e"
      by (metis append_eq_conv_conj append_take_drop_id length_append add_diff_cancel_right' suffix_def)
    have eq: "TrimRight s = TrimRight (take (length s - length e) s)"
      using Some by (subst TrimRight.simps) simp
    obtain post where post: "whitespaceOnly post"
      and rest: "take (length s - length e) s = TrimRight (take (length s - length e) s) @ post"
      using "1.IH" [OF Some] by blast
    have "whitespaceOnly (post @ e)"
      using post whitespaceOnly_rune [OF e] by (rule whitespaceOnly_append)
    moreover have "s = TrimRight s @ (post @ e)"
      using s rest eq by (metis append.assoc)
    ultimately show ?thesis by blast
  qed
qed

lemma TrimSpace_decomp:
  "\<exists>pre post. whitespaceOnly pre \<and> whitespaceOnly post \<and> s = pre @ TrimSpace s @ post"
proof -
  obtain pre where pre: "whitespaceOnly pre" and l: "s = pre @ TrimLeft s"
    using TrimLeft_decomp by blast
  obtain post where post: "whitespaceOnly post" and r: "TrimLeft s = TrimRight (TrimLeft s) @ post"
    using TrimRight_decomp by blast
  have "s = pre @ TrimSpace s @ post"
    using l r by (simp add: TrimSpace_def)
  then show ?thesis
    using pre post by blast
qed

lemma TrimSpace_Nil_iff: "TrimSpace s = [] \<longleftrightarrow> whitespaceOnly s"
proof
  assume empty: "TrimSpace s = []"
  obtain pre post where "whitespaceOnly pre" and "whitespaceOnly post"
    and "s = pre @ TrimSpace s @ post"
    using TrimSpace_decomp by blast
  then show "whitespaceOnly s"
    using empty whitespaceOnly_append [of pre post] by simp
next
  assume "whitespaceOnly s"
  then have "TrimLeft (s @ []) = TrimLeft []"
    by (rule TrimLeft_whitespaceOnly)
  moreover have "\<not> startsWithSpace []" and "\<not> endsWithSpace []"
    using whiteSpace_nonempty by (auto simp add: startsWithSpace_def endsWithSpace_def)
  then have "TrimLeft [] = []" and "TrimRight [] = []"
    by (simp_all add: TrimLeft_plain TrimRight_plain)
  ultimately show "TrimSpace s = []"
    by (simp add: TrimSpace_def)
qed

text \<open>Splitting: the pieces hold no separator, and joined by it they give the string back.\<close>

lemma Split_not_Nil: "Split s sep \<noteq> []"
  by (subst Split.simps) simp

lemma Split_no_sep: "l \<in> set (Split s sep) \<Longrightarrow> sep \<notin> set l"
proof (induction s sep rule: Split.induct)
  case (1 s sep)
  show ?case
  proof (cases "sep \<in> set s")
    case True
    then have "Split s sep = takeWhile (\<lambda>c. c \<noteq> sep) s
        # Split (tl (dropWhile (\<lambda>c. c \<noteq> sep) s)) sep"
      by (subst Split.simps) simp
    then have "l = takeWhile (\<lambda>c. c \<noteq> sep) s
        \<or> l \<in> set (Split (tl (dropWhile (\<lambda>c. c \<noteq> sep) s)) sep)"
      using "1.prems" by simp
    then show ?thesis
      using "1.IH" [OF True] by (auto dest: set_takeWhileD)
  next
    case False
    then have "Split s sep = [s]"
      by (subst Split.simps) simp
    then show ?thesis
      using "1.prems" False by simp
  qed
qed

lemma Join_Cons: "xs \<noteq> [] \<Longrightarrow> Join (x # xs) sep = x @ sep @ Join xs sep"
  by (cases xs) simp_all

lemma Split_Join: "Join (Split s sep) [sep] = s"
proof (induction s sep rule: Split.induct)
  case (1 s sep)
  show ?case
  proof (cases "sep \<in> set s")
    case True
    let ?rest = "tl (dropWhile (\<lambda>c. c \<noteq> sep) s)"
    have split: "Split s sep = takeWhile (\<lambda>c. c \<noteq> sep) s # Split ?rest sep"
      using True by (subst Split.simps) simp
    have "dropWhile (\<lambda>c. c \<noteq> sep) s \<noteq> []"
      using True by (auto simp add: dropWhile_eq_Nil_conv)
    moreover have "hd (dropWhile (\<lambda>c. c \<noteq> sep) s) = sep"
      using calculation hd_dropWhile [of "\<lambda>c. c \<noteq> sep" s] by simp
    ultimately have "dropWhile (\<lambda>c. c \<noteq> sep) s = sep # ?rest"
      by (metis list.collapse)
    then have "s = takeWhile (\<lambda>c. c \<noteq> sep) s @ [sep] @ ?rest"
      by (metis append_Cons append_Nil takeWhile_dropWhile_id)
    moreover have "Join (Split s sep) [sep]
        = takeWhile (\<lambda>c. c \<noteq> sep) s @ [sep] @ Join (Split ?rest sep) [sep]"
      using split Split_not_Nil by (simp add: Join_Cons)
    ultimately show ?thesis
      using "1.IH" [OF True] by simp
  next
    case False
    then have "Split s sep = [s]"
      by (subst Split.simps) simp
    then show ?thesis by simp
  qed
qed

subsection \<open>Facts about the inventory\<close>

lemma appendIDs_filter:
  "appendIDs acc ls = acc @ filter (\<lambda>l. l \<noteq> []) (map TrimSpace ls)"
  by (induction ls arbitrary: acc) (simp_all add: Let_def)

lemma token_not_startsWithSpace: "token t \<Longrightarrow> \<not> startsWithSpace (t @ s)"
proof
  assume t: "token t" and "startsWithSpace (t @ s)"
  then obtain e where e: "e \<in> set whiteSpace" and p: "prefix e (t @ s)"
    by (auto simp add: startsWithSpace_def)
  have "e \<noteq> []" and "t \<noteq> []"
    using e t by (simp_all add: whiteSpace_nonempty token_def)
  then have "hd e = hd t"
    using p by (cases e; cases t) simp_all
  moreover have "hd e \<in> set e"
    using \<open>e \<noteq> []\<close> by simp
  then have "hd e \<in> set (concat whiteSpace)"
    using e by (simp only: set_concat) blast
  ultimately show False
    using t by (simp add: token_def)
qed

lemma token_not_endsWithSpace: "token t \<Longrightarrow> \<not> endsWithSpace (s @ t)"
proof
  assume t: "token t" and "endsWithSpace (s @ t)"
  then obtain e where e: "e \<in> set whiteSpace" and p: "suffix e (s @ t)"
    by (auto simp add: endsWithSpace_def)
  have "e \<noteq> []" and "t \<noteq> []"
    using e t by (simp_all add: whiteSpace_nonempty token_def)
  then have "last e = last t"
    using p by (metis last_appendR suffix_def)
  moreover have "last e \<in> set e"
    using \<open>e \<noteq> []\<close> by simp
  then have "last e \<in> set (concat whiteSpace)"
    using e by (simp only: set_concat) blast
  ultimately show False
    using t by (simp add: token_def)
qed

text \<open>White space around a token is all that trimming removes.\<close>

lemma TrimSpace_token:
  assumes "whitespaceOnly pre" and "token t" and "whitespaceOnly post"
  shows "TrimSpace (pre @ t @ post) = t"
proof -
  have "TrimLeft (pre @ t @ post) = TrimLeft (t @ post)"
    using assms(1) by (rule TrimLeft_whitespaceOnly)
  also have "\<dots> = t @ post"
    using assms(2) by (simp add: TrimLeft_plain token_not_startsWithSpace)
  finally have "TrimSpace (pre @ t @ post) = TrimRight (t @ post)"
    by (simp add: TrimSpace_def)
  also have "\<dots> = TrimRight t"
    using assms(3) by (rule TrimRight_whitespaceOnly)
  also have "\<dots> = t"
    using token_not_endsWithSpace [OF assms(2), of "[]"] by (simp add: TrimRight_plain)
  finally show ?thesis .
qed

lemma TrimSpace_whitespaceOnly: "whitespaceOnly s \<Longrightarrow> TrimSpace s = []"
proof -
  assume "whitespaceOnly s"
  then have "TrimLeft (s @ []) = TrimLeft []"
    by (rule TrimLeft_whitespaceOnly)
  moreover have "\<not> startsWithSpace []" and "\<not> endsWithSpace []"
    using whiteSpace_nonempty by (auto simp add: startsWithSpace_def endsWithSpace_def)
  then have "TrimLeft [] = []" and "TrimRight [] = []"
    by (simp_all add: TrimLeft_plain TrimRight_plain)
  ultimately show ?thesis
    by (simp add: TrimSpace_def)
qed

lemma whitespaceOnly_nl: "whitespaceOnly [nl]"
  using whitespaceOnly.Rune [of "[nl]" "[]"] by (simp add: whitespaceOnly.Nil nl_def whiteSpace_def)

lemma token_concat:
  assumes "\<forall>t\<in>set ts. token t" and "ts \<noteq> []"
  shows "token (concat ts)"
proof -
  obtain x xs where ts: "ts = x # xs"
    using assms(2) by (cases ts) auto
  obtain ys y where ts': "ts = ys @ [y]"
    using assms(2) by (cases ts rule: rev_cases) auto
  have x: "token x"
    using assms(1) ts by simp
  have y: "token y"
    using assms(1) ts' by simp
  have "hd (concat ts) = hd x"
    using x by (simp add: ts token_def)
  moreover have "last (concat ts) = last y"
    using y by (simp add: ts' token_def)
  moreover have "concat ts \<noteq> []"
    using x by (simp add: ts token_def)
  ultimately show ?thesis
    using x y by (simp add: token_def)
qed

lemma trimmed_lines_cores:
  "list_all2 (\<lambda>t l. \<exists>pre post. whitespaceOnly pre \<and> whitespaceOnly post \<and> l = pre @ t @ post)
     (filter (\<lambda>l. l \<noteq> []) (map TrimSpace ls)) (filter (\<lambda>l. \<not> whitespaceOnly l) ls)"
proof (induction ls)
  case Nil
  show ?case by simp
next
  case (Cons l ls)
  show ?case
  proof (cases "whitespaceOnly l")
    case True
    then show ?thesis
      using Cons by (simp add: TrimSpace_Nil_iff)
  next
    case False
    then have "TrimSpace l \<noteq> []"
      by (simp add: TrimSpace_Nil_iff)
    then show ?thesis
      using Cons False TrimSpace_decomp [of l] by simp
  qed
qed

subsection \<open>Facts about printContainerLogs\<close>

lemma printContainerLogs_loop_runs:
  "filter isRun (printContainerLogs_loop cmdRun ids tr) =
     filter isRun tr @ map (\<lambda>containerID. Run [''docker'', ''logs'', containerID]) ids"
  by (induction ids arbitrary: tr) (simp_all add: Let_def split: option.splits)

lemma printContainerLogs_loop_warnings:
  "filter isWarnf (printContainerLogs_loop cmdRun ids tr) =
     filter isWarnf tr @ warningsFrom cmdRun (length (filter isRun tr)) ids"
  by (induction ids arbitrary: tr) (simp_all add: Let_def split: option.splits)

lemma warningsFrom_none:
  "(\<forall>i<length ids. cmdRun (n + i) = None) \<Longrightarrow> warningsFrom cmdRun n ids = []"
proof (induction ids arbitrary: n)
  case Nil
  show ?case by simp
next
  case (Cons containerID rest)
  have "cmdRun n = None"
    using Cons.prems by (metis add.right_neutral length_greater_0_conv list.distinct(1))
  moreover have "\<forall>i<length rest. cmdRun (Suc n + i) = None"
    using Cons.prems by (metis Suc_less_eq add_Suc_shift length_Cons)
  ultimately show ?case
    using Cons.IH [of "Suc n"] by simp
qed

lemma warningsFrom_one:
  assumes "j < length ids" and "cmdRun (n + j) = Some e"
    and "\<forall>i<length ids. i \<noteq> j \<longrightarrow> cmdRun (n + i) = None"
  shows "warningsFrom cmdRun n ids =
         [Warnf ''printing node logs for container id %q failed, err: %s'' [Str (ids ! j), Err e]]"
  using assms
proof (induction ids arbitrary: n j)
  case Nil
  then show ?case by simp
next
  case (Cons containerID rest)
  show ?case
  proof (cases j)
    case 0
    have "\<forall>i<length rest. cmdRun (Suc n + i) = None"
    proof (intro allI impI)
      fix i assume "i < length rest"
      then have "Suc i < length (containerID # rest)" and "Suc i \<noteq> j"
        using 0 by simp_all
      then have "cmdRun (n + Suc i) = None"
        using Cons.prems(3) by blast
      then show "cmdRun (Suc n + i) = None" by simp
    qed
    then have "warningsFrom cmdRun (Suc n) rest = []"
      by (rule warningsFrom_none)
    then show ?thesis
      using Cons.prems(2) 0 by simp
  next
    case (Suc j')
    have head: "cmdRun n = None"
      using Cons.prems(3) [rule_format, of 0] Suc by simp
    have "j' < length rest" and "cmdRun (Suc n + j') = Some e"
      using Cons.prems(1,2) Suc by simp_all
    moreover have "\<forall>i<length rest. i \<noteq> j' \<longrightarrow> cmdRun (Suc n + i) = None"
    proof (intro allI impI)
      fix i assume "i < length rest" and "i \<noteq> j'"
      then have "Suc i < length (containerID # rest)" and "Suc i \<noteq> j"
        using Suc by simp_all
      then have "cmdRun (n + Suc i) = None"
        using Cons.prems(3) by blast
      then show "cmdRun (Suc n + i) = None" by simp
    qed
    ultimately have "warningsFrom cmdRun (Suc n) rest =
        [Warnf ''printing node logs for container id %q failed, err: %s'' [Str (rest ! j'), Err e]]"
      by (rule Cons.IH)
    then show ?thesis
      using head Suc by simp
  qed
qed

subsection \<open>Facts about tailContainerLogs\<close>

text \<open>
  What the caller returns is the outcome of creating the file, in every run: no step of
  a goroutine moves the caller, and the return of line 235 is the literal \<^verbatim>\<open>nil\<close>.
\<close>

lemma tail_step_after_return:
  assumes "tail_step createErr s s'" and "pc s = Returned r"
  shows "pc s' = Returned r"
  using assms by (cases rule: tail_step.cases) simp_all

lemma reachable_caller:
  "reachable createErr containerIDs s \<Longrightarrow>
     (\<forall>rest. pc s = AtRange rest \<longrightarrow> createErr = None)
     \<and> (\<forall>r. pc s = Returned r \<longrightarrow> r = createErr)"
proof (induction rule: reachable.induct)
  case start
  show ?case by (simp add: tail_init_def)
next
  case (step s s')
  from step.hyps(2) step.IH show ?case
    by (cases rule: tail_step.cases) auto
qed

lemma tailContainerLogs_result:
  "reachable createErr containerIDs s \<Longrightarrow> pc s = Returned r \<Longrightarrow> r = createErr"
  using reachable_caller by blast

section \<open>The claims\<close>

subsection \<open>startDocker: the claims\<close>

text \<open>
  C1. The claim: for every ceiling \<open>M \<ge> 0\<close>, a probe that never succeeds is run
  exactly \<open>M + 1\<close> times and the restart exactly \<open>M\<close> times before the terminal
  failure; with ceiling 3, 4 probes and 3 restarts. The code at ceiling 3, with a probe
  that always exits 1 and a restart that always exits 0: the guard of line 124 is
  \<^verbatim>\<open>attempts > maxDockerLaunchAttempts\<close>, so the run ends only in the iteration
  where \<^verbatim>\<open>attempts\<close> is 4, after 5 probes and 4 restarts.
\<close>

theorem startDocker_ceiling_3_probe_always_failing:
  "startDocker 3 alwaysFails alwaysSucceeds =
     Some (Some (Errorf ''%w: failed starting docker'' ErrLaunch), rounds 4 @ [Run psArgs])
   \<and> runs psArgs (rounds 4 @ [Run psArgs]) = 5
   \<and> runs startArgs (rounds 4 @ [Run psArgs]) = 4"
proof -
  have small: "\<forall>i<4. attemptsAfter i \<le> 3"
    by (simp add: attemptsAfter_no_wrap int_max_def)
  have over: "attemptsAfter 4 > 3"
    by (simp add: attemptsAfter_no_wrap int_max_def)
  have "startDocker 3 alwaysFails alwaysSucceeds =
     Some (Some (Errorf ''%w: failed starting docker'' ErrLaunch), rounds 4 @ [Run psArgs])"
    by (rule startDocker_returns_exhausted [OF _ _ small _ over])
       (simp_all add: alwaysFails_def alwaysSucceeds_def)
  then show ?thesis
    using runs_ready_trace [of 4] by simp
qed

text \<open>
  C9. For every \<open>k\<close> with \<open>1 \<le> k \<le> M + 1\<close>: if the probe fails on the attempts
  before the \<open>k\<close>-th and succeeds on the \<open>k\<close>-th, startDocker returns success right
  after that probe. The trace ends with the \<open>k\<close>-th probe, so no restart follows it,
  and it holds \<open>k\<close> probes and \<open>k - 1\<close> restarts. Attempt \<open>k\<close> is reached only when
  the restarts before it succeeded (a failing restart ends the run, see C8), and \<open>M\<close>
  is a value of Go's \<^verbatim>\<open>int\<close>.
\<close>

theorem startDocker_ready_on_attempt:
  assumes "1 \<le> k" and "int k \<le> maxAttempts + 1" and "maxAttempts \<le> int_max"
    and "\<forall>i<k - 1. psRun i \<noteq> None" and "psRun (k - 1) = None"
    and "\<forall>i<k - 1. startRun i = None"
  shows "startDocker maxAttempts psRun startRun = Some (None, rounds (k - 1) @ [Run psArgs])
       \<and> runs psArgs (rounds (k - 1) @ [Run psArgs]) = k
       \<and> runs startArgs (rounds (k - 1) @ [Run psArgs]) = k - 1"
proof -
  have within: "\<forall>i<k - 1. attemptsAfter i \<le> maxAttempts"
  proof (intro allI impI)
    fix i assume "i < k - 1"
    then have "int i \<le> maxAttempts" and "int i \<le> int_max"
      using assms(2,3) by simp_all
    then show "attemptsAfter i \<le> maxAttempts"
      by (simp add: attemptsAfter_no_wrap)
  qed
  have "startDocker maxAttempts psRun startRun = Some (None, rounds (k - 1) @ [Run psArgs])"
    by (rule startDocker_returns_ready [OF assms(4) assms(6) within assms(5)])
  then show ?thesis
    using runs_ready_trace [of "k - 1"] assms(1) by simp
qed

theorem startDocker_ready_on_attempt_witness:
  "startDocker 3 (failsBefore 1) alwaysSucceeds =
     Some (None, [Run psArgs, Run startArgs, Sleep 1, Run psArgs])
   \<and> runs psArgs [Run psArgs, Run startArgs, Sleep 1, Run psArgs] = 2
   \<and> runs startArgs [Run psArgs, Run startArgs, Sleep 1, Run psArgs] = 1"
  using startDocker_ready_on_attempt [of 2 3 "failsBefore 1" alwaysSucceeds]
  by (simp add: failsBefore_def alwaysSucceeds_def int_max_def numeral_2_eq_2)

text \<open>
  C8. If the restart command fails, startDocker returns that very error, and the failed
  restart is the last thing it did: nothing is wrapped and nothing is retried. The
  restart of iteration \<open>j\<close> (counted from 0) is issued exactly when the probes up to
  that iteration failed, the counter stayed within the ceiling and the earlier restarts
  succeeded.
\<close>

theorem startDocker_restart_failure_returned:
  assumes "\<forall>i\<le>j. psRun i \<noteq> None"
    and "\<forall>i\<le>j. attemptsAfter i \<le> maxAttempts"
    and "\<forall>i<j. startRun i = None"
    and "startRun j = Some e"
  shows "startDocker maxAttempts psRun startRun =
         Some (Some e, rounds j @ [Run psArgs, Run startArgs])"
  by (rule startDocker_returns_restart_error) (use assms in simp_all)

theorem startDocker_restart_failure_returned_witness:
  "startDocker 3 alwaysFails (succeedsBefore 1 (ExecError ''service: executable file not found''))
     = Some (Some (ExecError ''service: executable file not found''),
             [Run psArgs, Run startArgs, Sleep 1, Run psArgs, Run startArgs])"
proof -
  have "\<forall>i\<le>1. attemptsAfter i \<le> 3"
    by (simp add: attemptsAfter_no_wrap int_max_def)
  then show ?thesis
    using startDocker_restart_failure_returned [of 1 alwaysFails 3
        "succeedsBefore 1 (ExecError ''service: executable file not found'')"
        "ExecError ''service: executable file not found''"]
    by (simp add: alwaysFails_def succeedsBefore_def)
qed

text \<open>
  C7, as the claim states it: on exhaustion the error wraps the launch sentinel with the
  message "daemon did not become ready". At ceiling 0 with a probe that always fails,
  the error returned is \<^verbatim>\<open>fmt.Errorf("%w: failed starting docker", ErrLaunch)\<close>,
  and the claim's message occurs nowhere in that format.
\<close>

theorem startDocker_exhausted_tag_counterexample:
  "map_option fst (startDocker 0 alwaysFails alwaysSucceeds) =
     Some (Some (Errorf ''%w: failed starting docker'' ErrLaunch))
   \<and> \<not> sublist ''daemon did not become ready'' ''%w: failed starting docker''"
proof -
  have "startDocker 0 alwaysFails alwaysSucceeds =
     Some (Some (Errorf ''%w: failed starting docker'' ErrLaunch), rounds 1 @ [Run psArgs])"
    by (rule startDocker_returns_exhausted)
       (simp_all add: alwaysFails_def alwaysSucceeds_def attemptsAfter_no_wrap int_max_def)
  moreover have "\<not> sublist ''daemon did not become ready'' ''%w: failed starting docker''"
    by (simp add: sublist_Cons_right)
  ultimately show ?thesis by simp
qed

text \<open>
  C7, amended: when startDocker exhausts its ceiling without a successful probe (every
  probe fails and every restart succeeds, for a ceiling \<open>0 \<le> M\<close> below the largest
  \<^verbatim>\<open>int\<close>), it returns the error
  \<^verbatim>\<open>fmt.Errorf("%w: failed starting docker", ErrLaunch)\<close>, which wraps the launch
  sentinel.
\<close>

theorem startDocker_exhausted_error:
  assumes "0 \<le> maxAttempts" and "maxAttempts < int_max"
    and "\<forall>i. psRun i \<noteq> None"
    and "\<forall>i. startRun i = None"
  shows "map_option fst (startDocker maxAttempts psRun startRun) =
           Some (Some (Errorf ''%w: failed starting docker'' ErrLaunch))
       \<and> errors_Is (Errorf ''%w: failed starting docker'' ErrLaunch) ErrLaunch"
proof -
  have within: "\<forall>i<nat maxAttempts + 1. attemptsAfter i \<le> maxAttempts"
  proof (intro allI impI)
    fix i assume "i < nat maxAttempts + 1"
    then have "int i \<le> maxAttempts" and "int i \<le> int_max"
      using assms(1,2) by simp_all
    then show "attemptsAfter i \<le> maxAttempts"
      by (simp add: attemptsAfter_no_wrap)
  qed
  have "int (nat maxAttempts + 1) \<le> int_max"
    using assms(1,2) by simp
  then have over: "attemptsAfter (nat maxAttempts + 1) > maxAttempts"
    using assms(1) by (simp add: attemptsAfter_no_wrap)
  have "startDocker maxAttempts psRun startRun =
           Some (Some (Errorf ''%w: failed starting docker'' ErrLaunch),
                 rounds (nat maxAttempts + 1) @ [Run psArgs])"
    by (rule startDocker_returns_exhausted [OF _ _ within _ over]) (use assms(3,4) in simp_all)
  then show ?thesis by simp
qed

theorem startDocker_exhausted_error_witness:
  "map_option fst (startDocker 0 alwaysFails alwaysSucceeds) =
     Some (Some (Errorf ''%w: failed starting docker'' ErrLaunch))
   \<and> errors_Is (Errorf ''%w: failed starting docker'' ErrLaunch) ErrLaunch"
  using startDocker_exhausted_error [of 0 alwaysFails alwaysSucceeds]
  by (simp add: alwaysFails_def alwaysSucceeds_def int_max_def)

subsection \<open>The container inventory: the claims\<close>

text \<open>
  C2. For every output of the runtime, getContainerIDs returns exactly the trimmed
  non-empty lines of that output, in the order of the lines. Spelled out: the lines are
  the pieces of the output between the newlines; the entries of the result correspond,
  one to one and in order, to the lines that are not white space only; each such line is
  its entry with nothing but white space before and after it; and no entry is empty,
  white space only, or starts or ends with a white space rune. For the output
  "abc\n\n  \ndef\n" the result is ["abc", "def"], and so it is when the lines carry
  white space around the text.
\<close>

theorem getContainerIDs_trimmed_nonempty_lines:
  assumes "dockerOutput (psQuietArgs all) = Inr output"
  shows "getContainerIDs dockerOutput all = Inr (trimmedNonEmptyLines output)
       \<and> (\<forall>containerID\<in>set (trimmedNonEmptyLines output).
            containerID \<noteq> [] \<and> \<not> whitespaceOnly containerID
            \<and> TrimSpace containerID = containerID
            \<and> \<not> startsWithSpace containerID \<and> \<not> endsWithSpace containerID)
       \<and> list_all2
            (\<lambda>containerID line. \<exists>pre post.
               whitespaceOnly pre \<and> whitespaceOnly post \<and> line = pre @ containerID @ post)
            (trimmedNonEmptyLines output)
            (filter (\<lambda>line. \<not> whitespaceOnly line) (Split output nl))
       \<and> Join (Split output nl) [nl] = output
       \<and> (\<forall>line\<in>set (Split output nl). nl \<notin> set line)"
proof -
  have "getContainerIDs dockerOutput all = Inr (trimmedNonEmptyLines output)"
    using assms by (simp add: getContainerIDs_def trimmedNonEmptyLines_def appendIDs_filter)
  moreover have "\<forall>containerID\<in>set (trimmedNonEmptyLines output).
      containerID \<noteq> [] \<and> \<not> whitespaceOnly containerID \<and> TrimSpace containerID = containerID
      \<and> \<not> startsWithSpace containerID \<and> \<not> endsWithSpace containerID"
    using TrimSpace_not_whitespaceOnly TrimSpace_idem
      TrimSpace_not_startsWithSpace TrimSpace_not_endsWithSpace
    by (auto simp add: trimmedNonEmptyLines_def)
  moreover have "list_all2
      (\<lambda>containerID line. \<exists>pre post.
         whitespaceOnly pre \<and> whitespaceOnly post \<and> line = pre @ containerID @ post)
      (trimmedNonEmptyLines output)
      (filter (\<lambda>line. \<not> whitespaceOnly line) (Split output nl))"
    unfolding trimmedNonEmptyLines_def by (rule trimmed_lines_cores)
  moreover have "Join (Split output nl) [nl] = output"
    by (rule Split_Join)
  moreover have "\<forall>line\<in>set (Split output nl). nl \<notin> set line"
    using Split_no_sep by blast
  ultimately show ?thesis by blast
qed

theorem getContainerIDs_trimmed_nonempty_lines_witness:
  "getContainerIDs (prints ''abc\<newline>\<newline>  \<newline>def\<newline>'') False = Inr [''abc'', ''def'']
   \<and> getContainerIDs (prints ''  abc \<newline>\<newline>  \<newline> def  \<newline>'') True = Inr [''abc'', ''def'']
   \<and> \<not> whitespaceOnly ''abc'' \<and> \<not> startsWithSpace ''abc'' \<and> \<not> endsWithSpace ''def''
   \<and> Split ''  abc \<newline>\<newline>  \<newline> def  \<newline>'' nl = [''  abc '', [], ''  '', '' def  '', []]"
proof -
  have plain: "trimmedNonEmptyLines ''abc\<newline>\<newline>  \<newline>def\<newline>'' = [''abc'', ''def'']"
    by code_simp
  have padded: "trimmedNonEmptyLines ''  abc \<newline>\<newline>  \<newline> def  \<newline>'' = [''abc'', ''def'']"
    by code_simp
  have pieces: "Split ''  abc \<newline>\<newline>  \<newline> def  \<newline>'' nl = [''  abc '', [], ''  '', '' def  '', []]"
    by code_simp
  have "prints ''abc\<newline>\<newline>  \<newline>def\<newline>'' (psQuietArgs False) = Inr ''abc\<newline>\<newline>  \<newline>def\<newline>''"
    by (simp add: prints_def)
  note first = getContainerIDs_trimmed_nonempty_lines
    [of "prints ''abc\<newline>\<newline>  \<newline>def\<newline>''" False "''abc\<newline>\<newline>  \<newline>def\<newline>''", OF this]
  have "prints ''  abc \<newline>\<newline>  \<newline> def  \<newline>'' (psQuietArgs True) = Inr ''  abc \<newline>\<newline>  \<newline> def  \<newline>''"
    by (simp add: prints_def)
  note second = getContainerIDs_trimmed_nonempty_lines
    [of "prints ''  abc \<newline>\<newline>  \<newline> def  \<newline>''" True "''  abc \<newline>\<newline>  \<newline> def  \<newline>''", OF this]
  have "getContainerIDs (prints ''abc\<newline>\<newline>  \<newline>def\<newline>'') False = Inr [''abc'', ''def'']"
    using first [THEN conjunct1] by (simp only: plain)
  moreover have "getContainerIDs (prints ''  abc \<newline>\<newline>  \<newline> def  \<newline>'') True = Inr [''abc'', ''def'']"
    using second [THEN conjunct1] by (simp only: padded)
  moreover have "\<forall>containerID\<in>set [''abc'', ''def''].
      containerID \<noteq> [] \<and> \<not> whitespaceOnly containerID \<and> TrimSpace containerID = containerID
      \<and> \<not> startsWithSpace containerID \<and> \<not> endsWithSpace containerID"
    using second [THEN conjunct2, THEN conjunct1] by (simp only: padded)
  then have "\<not> whitespaceOnly ''abc'' \<and> \<not> startsWithSpace ''abc'' \<and> \<not> endsWithSpace ''def''"
    by simp
  ultimately show ?thesis
    using pieces by blast
qed

text \<open>
  C3. getContainerIDForNodeName returns an error exactly when the filter command fails
  (and then that command's error); when the command prints nothing it returns the empty
  string and no error; when it prints one token, with white space around it, it returns
  the token.
\<close>

theorem getContainerIDForNodeName_result:
  "(isl (getContainerIDForNodeName dockerOutput nodeName) = isl (dockerOutput (filterArgs nodeName)))
   \<and> (dockerOutput (filterArgs nodeName) = Inl err
        \<longrightarrow> getContainerIDForNodeName dockerOutput nodeName = Inl err)
   \<and> (dockerOutput (filterArgs nodeName) = Inr []
        \<longrightarrow> getContainerIDForNodeName dockerOutput nodeName = Inr [])
   \<and> (dockerOutput (filterArgs nodeName) = Inr (pre @ t @ post)
        \<and> whitespaceOnly pre \<and> token t \<and> whitespaceOnly post
        \<longrightarrow> getContainerIDForNodeName dockerOutput nodeName = Inr t)"
proof -
  have "TrimSpace [] = []"
    by (rule TrimSpace_whitespaceOnly) (rule whitespaceOnly.Nil)
  then show ?thesis
    by (auto simp add: getContainerIDForNodeName_def TrimSpace_token split: sum.splits)
qed

theorem getContainerIDForNodeName_result_witness:
  "getContainerIDForNodeName (prints ''4f2a9c01d3e7\<newline>'') ''srl1'' = Inr ''4f2a9c01d3e7''
   \<and> getContainerIDForNodeName (prints []) ''srl1'' = Inr []
   \<and> getContainerIDForNodeName (failsWith (ExitError 1)) ''srl1'' = Inl (ExitError 1)"
proof -
  have "token ''4f2a9c01d3e7''"
    by (simp add: token_def whiteSpace_def)
  then have "getContainerIDForNodeName (prints ''4f2a9c01d3e7\<newline>'') ''srl1'' = Inr ''4f2a9c01d3e7''"
    using getContainerIDForNodeName_result
      [of "prints ''4f2a9c01d3e7\<newline>''" "''srl1''" "ExitError 1" "[]" "''4f2a9c01d3e7''" "[nl]"]
      whitespaceOnly_nl whitespaceOnly.Nil
    by (simp add: prints_def nl_def)
  moreover have "getContainerIDForNodeName (prints []) ''srl1'' = Inr []"
    using getContainerIDForNodeName_result [of "prints []" "''srl1''"]
    by (simp add: prints_def)
  moreover have "getContainerIDForNodeName (failsWith (ExitError 1)) ''srl1'' = Inl (ExitError 1)"
    using getContainerIDForNodeName_result [of "failsWith (ExitError 1)" "''srl1''" "ExitError 1"]
    by (simp add: failsWith_def)
  ultimately show ?thesis by simp
qed

text \<open>
  C6, as the claim states it: the address returned is that of the container's first
  attached network. For a container attached to two networks the format prints both
  addresses one after the other, and that concatenation is what getContainerAddr
  returns.
\<close>

theorem getContainerAddr_first_network_counterexample:
  "getContainerAddr
     (prints (inspectPrints [(''bridge'', ''172.17.0.2''), (''clab'', ''172.20.20.3'')])) ''4f2a9c01d3e7''
     = Inr ''172.17.0.2172.20.20.3''
   \<and> getContainerAddr
     (prints (inspectPrints [(''bridge'', ''172.17.0.2''), (''clab'', ''172.20.20.3'')])) ''4f2a9c01d3e7''
     \<noteq> Inr (snd (hd [(''bridge'', ''172.17.0.2''), (''clab'', ''172.20.20.3'')]))"
proof -
  have "TrimSpace ''172.17.0.2172.20.20.3\<newline>'' = ''172.17.0.2172.20.20.3''"
    by code_simp
  then show ?thesis
    by (simp add: getContainerAddr_def prints_def inspectPrints_def nl_def)
qed

text \<open>
  C6, amended: getContainerAddr returns the inspect command's output trimmed, which is
  the concatenation of the addresses of all the networks the container is attached to:
  the address itself when there is exactly one network, the empty string (and no error)
  when there is none. It returns an error exactly when the inspect command fails, and
  then that command's error.
\<close>

theorem getContainerAddr_result:
  "(isl (getContainerAddr dockerOutput containerID) = isl (dockerOutput (inspectArgs containerID)))
   \<and> (dockerOutput (inspectArgs containerID) = Inl err
        \<longrightarrow> getContainerAddr dockerOutput containerID = Inl err)
   \<and> (dockerOutput (inspectArgs containerID) = Inr output
        \<longrightarrow> getContainerAddr dockerOutput containerID = Inr (TrimSpace output))
   \<and> (dockerOutput (inspectArgs containerID) = Inr (inspectPrints networks)
        \<and> (\<forall>n\<in>set networks. token (snd n))
        \<longrightarrow> getContainerAddr dockerOutput containerID = Inr (concat (map snd networks)))"
proof -
  have "TrimSpace (inspectPrints networks) = concat (map snd networks)"
    if tokens: "\<forall>n\<in>set networks. token (snd n)"
  proof (cases "networks = []")
    case True
    then show ?thesis
      using TrimSpace_whitespaceOnly [OF whitespaceOnly_nl] by (simp add: inspectPrints_def)
  next
    case False
    then have "token (concat (map snd networks))"
      using tokens by (intro token_concat) auto
    then have "TrimSpace ([] @ concat (map snd networks) @ [nl]) = concat (map snd networks)"
      using whitespaceOnly.Nil whitespaceOnly_nl by (intro TrimSpace_token)
    then show ?thesis
      by (simp add: inspectPrints_def)
  qed
  then show ?thesis
    by (auto simp add: getContainerAddr_def split: sum.splits)
qed

theorem getContainerAddr_result_witness:
  "getContainerAddr (prints (inspectPrints [(''clab'', ''172.20.20.3'')])) ''4f2a9c01d3e7''
     = Inr ''172.20.20.3''
   \<and> getContainerAddr (prints (inspectPrints [])) ''4f2a9c01d3e7'' = Inr []
   \<and> getContainerAddr (failsWith (ExitError 1)) ''4f2a9c01d3e7'' = Inl (ExitError 1)"
proof -
  have "token ''172.20.20.3''"
    by (simp add: token_def whiteSpace_def)
  then have "getContainerAddr (prints (inspectPrints [(''clab'', ''172.20.20.3'')])) ''4f2a9c01d3e7''
     = Inr ''172.20.20.3''"
    using getContainerAddr_result
      [of "prints (inspectPrints [(''clab'', ''172.20.20.3'')])" "''4f2a9c01d3e7''" "ExitError 1"
          "[]" "[(''clab'', ''172.20.20.3'')]"]
    by (simp add: prints_def inspectPrints_def)
  moreover have "getContainerAddr (prints (inspectPrints [])) ''4f2a9c01d3e7'' = Inr []"
    using getContainerAddr_result
      [of "prints (inspectPrints [])" "''4f2a9c01d3e7''" "ExitError 1" "[]" "[]"]
    by (simp add: prints_def inspectPrints_def)
  moreover have "getContainerAddr (failsWith (ExitError 1)) ''4f2a9c01d3e7'' = Inl (ExitError 1)"
    using getContainerAddr_result [of "failsWith (ExitError 1)" "''4f2a9c01d3e7''" "ExitError 1"]
    by (simp add: failsWith_def)
  ultimately show ?thesis by simp
qed

subsection \<open>printContainerLogs: the claim\<close>

text \<open>
  C5. For every list of \<open>N\<close> identifiers and every outcome of the commands,
  printContainerLogs runs \<^verbatim>\<open>docker logs <id>\<close> once per identifier, in the order of
  the list, and comes to its end after all \<open>N\<close> (the function is total, and these are
  all the commands of its trace). If exactly one of the runs fails, say the \<open>j\<close>-th with
  error \<open>e\<close>, the trace holds exactly one warning, and it carries the \<open>j\<close>-th identifier
  and \<open>e\<close>.
\<close>

theorem printContainerLogs_all_attempted_one_warning:
  "filter isRun (printContainerLogs cmdRun containerIDs) =
     map (\<lambda>containerID. Run [''docker'', ''logs'', containerID]) containerIDs
   \<and> (j < length containerIDs \<and> cmdRun j = Some e
        \<and> (\<forall>i<length containerIDs. i \<noteq> j \<longrightarrow> cmdRun i = None)
      \<longrightarrow> filter isWarnf (printContainerLogs cmdRun containerIDs) =
            [Warnf ''printing node logs for container id %q failed, err: %s''
               [Str (containerIDs ! j), Err e]])"
proof -
  have "filter isWarnf (printContainerLogs cmdRun containerIDs) = warningsFrom cmdRun 0 containerIDs"
    by (simp add: printContainerLogs_def printContainerLogs_loop_warnings)
  then show ?thesis
    using warningsFrom_one [of j containerIDs cmdRun 0 e]
    by (simp add: printContainerLogs_def printContainerLogs_loop_runs)
qed

theorem printContainerLogs_all_attempted_one_warning_witness:
  "printContainerLogs (failsOnlyAt 1 (ExitError 1)) [''c0'', ''c1'', ''c2''] =
     [Run [''docker'', ''logs'', ''c0''], Run [''docker'', ''logs'', ''c1''],
      Warnf ''printing node logs for container id %q failed, err: %s'' [Str ''c1'', Err (ExitError 1)],
      Run [''docker'', ''logs'', ''c2'']]
   \<and> filter isRun (printContainerLogs (failsOnlyAt 1 (ExitError 1)) [''c0'', ''c1'', ''c2'']) =
     [Run [''docker'', ''logs'', ''c0''], Run [''docker'', ''logs'', ''c1''],
      Run [''docker'', ''logs'', ''c2'']]
   \<and> filter isWarnf (printContainerLogs (failsOnlyAt 1 (ExitError 1)) [''c0'', ''c1'', ''c2'']) =
     [Warnf ''printing node logs for container id %q failed, err: %s'' [Str ''c1'', Err (ExitError 1)]]"
proof -
  have "printContainerLogs (failsOnlyAt 1 (ExitError 1)) [''c0'', ''c1'', ''c2''] =
     [Run [''docker'', ''logs'', ''c0''], Run [''docker'', ''logs'', ''c1''],
      Warnf ''printing node logs for container id %q failed, err: %s'' [Str ''c1'', Err (ExitError 1)],
      Run [''docker'', ''logs'', ''c2'']]"
    by (simp add: printContainerLogs_def failsOnlyAt_def)
  moreover have "\<forall>i<length [''c0'', ''c1'', ''c2'']. i \<noteq> 1 \<longrightarrow> failsOnlyAt 1 (ExitError 1) i = None"
    by (simp add: failsOnlyAt_def)
  ultimately show ?thesis
    using printContainerLogs_all_attempted_one_warning
      [of "failsOnlyAt 1 (ExitError 1)" "[''c0'', ''c1'', ''c2'']" 1 "ExitError 1"]
    by (simp add: failsOnlyAt_def)
qed

subsection \<open>handleInsecureRegistries: the claim\<close>

text \<open>
  C10. When the insecure-registries variable is empty, handleInsecureRegistries returns
  success and writes nothing. When it is not empty (and the constant compared with is
  "true"), the variables handed to the template carry the storage driver "vfs" exactly
  when the privileged variable equals "true" up to case, and "overlay2" in every other
  case; what the template renders from them is what is written to the daemon's
  configuration file.
\<close>

theorem handleInsecureRegistries_storage_driver:
  "(getenv (LauncherInsecureRegistries c) = []
      \<longrightarrow> handleInsecureRegistries c getenv quote parsed writeErr = (None, []))
   \<and> (getenv (LauncherInsecureRegistries c) \<noteq> [] \<and> ConstTrue c = ''true''
      \<longrightarrow> handleInsecureRegistries c getenv quote (Inr t) writeErr =
           (case t \<lparr>StorageDriver =
                       (if map asciiLower (getenv (LauncherPrivilegedEnv c)) = ''true''
                        then ''vfs'' else ''overlay2''),
                     InsecureRegistries =
                       Join (map quote (Split (getenv (LauncherInsecureRegistries c)) (CHR '',''))) '',''\<rparr>
            of Inl err \<Rightarrow> (Some err, [])
             | Inr rendered \<Rightarrow>
                 (writeErr,
                  [WriteFile ''/etc/docker/daemon.json'' rendered
                     (PermissionsEveryoneReadWriteOwnerExecute c)])))"
proof (intro conjI impI)
  assume "getenv (LauncherInsecureRegistries c) = []"
  then show "handleInsecureRegistries c getenv quote parsed writeErr = (None, [])"
    by (simp add: handleInsecureRegistries_def)
next
  assume set: "getenv (LauncherInsecureRegistries c) \<noteq> [] \<and> ConstTrue c = ''true''"
  have lower: "map asciiLower ''true'' = ''true''"
    by (simp add: asciiLower_def)
  have fold: "EqualFold (getenv (LauncherPrivilegedEnv c)) (ConstTrue c) =
      (map asciiLower (getenv (LauncherPrivilegedEnv c)) = ''true'')"
    unfolding EqualFold_def using set lower by simp
  show "handleInsecureRegistries c getenv quote (Inr t) writeErr =
           (case t \<lparr>StorageDriver =
                       (if map asciiLower (getenv (LauncherPrivilegedEnv c)) = ''true''
                        then ''vfs'' else ''overlay2''),
                     InsecureRegistries =
                       Join (map quote (Split (getenv (LauncherInsecureRegistries c)) (CHR '',''))) '',''\<rparr>
            of Inl err \<Rightarrow> (Some err, [])
             | Inr rendered \<Rightarrow>
                 (writeErr,
                  [WriteFile ''/etc/docker/daemon.json'' rendered
                     (PermissionsEveryoneReadWriteOwnerExecute c)]))"
  proof (cases "map asciiLower (getenv (LauncherPrivilegedEnv c)) = ''true''")
    case True
    then have "EqualFold (getenv (LauncherPrivilegedEnv c)) (ConstTrue c)"
      using fold by simp
    then show ?thesis
      unfolding handleInsecureRegistries_def Let_def vfsStorageDriver_def dockerDaemonConfig_def
      using set True by (simp only: if_True if_False not_True_eq_False not_not) simp
  next
    case False
    then have "\<not> EqualFold (getenv (LauncherPrivilegedEnv c)) (ConstTrue c)"
      using fold by simp
    then show ?thesis
      unfolding handleInsecureRegistries_def Let_def vfsStorageDriver_def
        overlayStorageDriver_def dockerDaemonConfig_def
      using set False by (simp only: if_True if_False not_True_eq_False not_not) simp
  qed
qed

theorem handleInsecureRegistries_storage_driver_witness:
  "handleInsecureRegistries someConstants (envWith ''reg1:5000,reg2'' ''TRUE'') plainQuote
     (Inr showVars) None =
     (None, [WriteFile ''/etc/docker/daemon.json'' ''vfs \"reg1:5000\",\"reg2\"'' 502])
   \<and> handleInsecureRegistries someConstants (envWith ''reg1:5000,reg2'' ''false'') plainQuote
     (Inr showVars) None =
     (None, [WriteFile ''/etc/docker/daemon.json'' ''overlay2 \"reg1:5000\",\"reg2\"'' 502])
   \<and> handleInsecureRegistries someConstants (envWith [] ''true'') plainQuote
     (Inr showVars) None = (None, [])"
proof -
  have split: "Split ''reg1:5000,reg2'' (CHR '','') = [''reg1:5000'', ''reg2'']"
    by code_simp
  have up: "asciiLower CHR ''T'' = CHR ''t''" "asciiLower CHR ''R'' = CHR ''r''"
    "asciiLower CHR ''U'' = CHR ''u''" "asciiLower CHR ''E'' = CHR ''e''"
    by code_simp+
  have "handleInsecureRegistries someConstants (envWith ''reg1:5000,reg2'' ''TRUE'') plainQuote
     (Inr showVars) None =
     (None, [WriteFile ''/etc/docker/daemon.json'' ''vfs \"reg1:5000\",\"reg2\"'' 502])"
    using handleInsecureRegistries_storage_driver
      [of "envWith ''reg1:5000,reg2'' ''TRUE''" someConstants plainQuote "Inr showVars" None showVars]
    by (simp add: someConstants_def envWith_def split up plainQuote_def showVars_def)
  moreover have "handleInsecureRegistries someConstants (envWith ''reg1:5000,reg2'' ''false'') plainQuote
     (Inr showVars) None =
     (None, [WriteFile ''/etc/docker/daemon.json'' ''overlay2 \"reg1:5000\",\"reg2\"'' 502])"
    using handleInsecureRegistries_storage_driver
      [of "envWith ''reg1:5000,reg2'' ''false''" someConstants plainQuote "Inr showVars" None showVars]
    by (simp add: someConstants_def envWith_def split plainQuote_def showVars_def)
  moreover have "handleInsecureRegistries someConstants (envWith [] ''true'') plainQuote
     (Inr showVars) None = (None, [])"
    using handleInsecureRegistries_storage_driver
      [of "envWith [] ''true''" someConstants plainQuote "Inr showVars" None showVars]
    by (simp add: someConstants_def envWith_def)
  ultimately show ?thesis by simp
qed

subsection \<open>tailContainerLogs: the claim\<close>

text \<open>
  C4. The claim: tailContainerLogs returns an error exactly when the log file cannot be
  created, returns success without waiting for the goroutines, and each goroutine's
  failure is reported as a warning carrying that container's identifier. The first part
  holds in every run (\<open>tailContainerLogs_result\<close>). The last does not: the goroutines
  share \<^verbatim>\<open>err\<close>. Two runs over the containers c1 and c2, the file created, both
  goroutines started and the call returned:

  \<^item> the command of c1 fails with exit status 1 and stores its error, the command of c2
    ends well and stores \<^verbatim>\<open>nil\<close>, and only then the goroutine of c1 tests
    \<^verbatim>\<open>err\<close>: it finds \<^verbatim>\<open>nil\<close>, and the failure of c1 is never reported;
  \<^item> the command of c1 ends well, the command of c2 fails with exit status 37 and stores
    its error, and then the goroutine of c1 tests \<^verbatim>\<open>err\<close>: it warns, for the
    container c1 whose command did not fail, with the error of c2.
\<close>

theorem tailContainerLogs_shared_err_runs:
  "reachable None [''c1'', ''c2'']
      \<lparr>pc = Returned None, err_var = None,
       tasks = [(''c1'', Finished), (''c2'', Finished)],
       events = [Go [''docker'', ''logs'', ''-f'', ''c1''],
                 Go [''docker'', ''logs'', ''-f'', ''c2''],
                 Run [''docker'', ''logs'', ''-f'', ''c1''],
                 Run [''docker'', ''logs'', ''-f'', ''c2'']],
       ended = [(''c1'', Some (ExitError 1)), (''c2'', None)]\<rparr>
   \<and> reachable None [''c1'', ''c2'']
      \<lparr>pc = Returned None, err_var = Some (ExitError 37),
       tasks = [(''c1'', Finished), (''c2'', Finished)],
       events = [Go [''docker'', ''logs'', ''-f'', ''c1''],
                 Go [''docker'', ''logs'', ''-f'', ''c2''],
                 Run [''docker'', ''logs'', ''-f'', ''c1''],
                 Run [''docker'', ''logs'', ''-f'', ''c2''],
                 Warnf ''tailing node logs for container id %q failed, err: %s'' [Str ''c1'', Err (ExitError 37)],
                 Warnf ''tailing node logs for container id %q failed, err: %s'' [Str ''c2'', Err (ExitError 37)]],
       ended = [(''c1'', None), (''c2'', Some (ExitError 37))]\<rparr>"
proof -
  have a0: "reachable None [''c1'', ''c2'']
      \<lparr>pc = AtCreate [''c1'', ''c2''], err_var = None,
       tasks = [],
       events = [],
       ended = []\<rparr>"
    using reachable.start [of None "[''c1'', ''c2'']"] by (simp add: tail_init_def)
  have a1: "reachable None [''c1'', ''c2'']
      \<lparr>pc = AtRange [''c1'', ''c2''], err_var = None,
       tasks = [],
       events = [],
       ended = []\<rparr>"
    by (rule reachable.step [OF a0], rule tail_step.create_ok [where containerIDs = "[''c1'', ''c2'']"]) (simp_all add: followArgs_def)
  have a2: "reachable None [''c1'', ''c2'']
      \<lparr>pc = AtRange [''c2''], err_var = None,
       tasks = [(''c1'', Following)],
       events = [Go [''docker'', ''logs'', ''-f'', ''c1'']],
       ended = []\<rparr>"
    by (rule reachable.step [OF a1], rule tail_step.launch [where containerID = "''c1''" and rest = "[''c2'']"]) (simp_all add: followArgs_def)
  have a3: "reachable None [''c1'', ''c2'']
      \<lparr>pc = AtRange [], err_var = None,
       tasks = [(''c1'', Following), (''c2'', Following)],
       events = [Go [''docker'', ''logs'', ''-f'', ''c1''],
                 Go [''docker'', ''logs'', ''-f'', ''c2'']],
       ended = []\<rparr>"
    by (rule reachable.step [OF a2], rule tail_step.launch [where containerID = "''c2''" and rest = "[]"]) (simp_all add: followArgs_def)
  have a4: "reachable None [''c1'', ''c2'']
      \<lparr>pc = Returned None, err_var = None,
       tasks = [(''c1'', Following), (''c2'', Following)],
       events = [Go [''docker'', ''logs'', ''-f'', ''c1''],
                 Go [''docker'', ''logs'', ''-f'', ''c2'']],
       ended = []\<rparr>"
    by (rule reachable.step [OF a3], rule tail_step.return_nil) (simp_all add: followArgs_def)
  have a5: "reachable None [''c1'', ''c2'']
      \<lparr>pc = Returned None, err_var = Some (ExitError 1),
       tasks = [(''c1'', AtCheck), (''c2'', Following)],
       events = [Go [''docker'', ''logs'', ''-f'', ''c1''],
                 Go [''docker'', ''logs'', ''-f'', ''c2''],
                 Run [''docker'', ''logs'', ''-f'', ''c1'']],
       ended = [(''c1'', Some (ExitError 1))]\<rparr>"
    by (rule reachable.step [OF a4], rule tail_step.run_ends [where i = 0 and containerID = "''c1''" and outcome = "Some (ExitError 1)"]) (simp_all add: followArgs_def)
  have a6: "reachable None [''c1'', ''c2'']
      \<lparr>pc = Returned None, err_var = None,
       tasks = [(''c1'', AtCheck), (''c2'', AtCheck)],
       events = [Go [''docker'', ''logs'', ''-f'', ''c1''],
                 Go [''docker'', ''logs'', ''-f'', ''c2''],
                 Run [''docker'', ''logs'', ''-f'', ''c1''],
                 Run [''docker'', ''logs'', ''-f'', ''c2'']],
       ended = [(''c1'', Some (ExitError 1)), (''c2'', None)]\<rparr>"
    by (rule reachable.step [OF a5], rule tail_step.run_ends [where i = 1 and containerID = "''c2''" and outcome = "None"]) (simp_all add: followArgs_def)
  have a7: "reachable None [''c1'', ''c2'']
      \<lparr>pc = Returned None, err_var = None,
       tasks = [(''c1'', Finished), (''c2'', AtCheck)],
       events = [Go [''docker'', ''logs'', ''-f'', ''c1''],
                 Go [''docker'', ''logs'', ''-f'', ''c2''],
                 Run [''docker'', ''logs'', ''-f'', ''c1''],
                 Run [''docker'', ''logs'', ''-f'', ''c2'']],
       ended = [(''c1'', Some (ExitError 1)), (''c2'', None)]\<rparr>"
    by (rule reachable.step [OF a6], rule tail_step.check_nil [where i = 0 and containerID = "''c1''"]) (simp_all add: followArgs_def)
  have a8: "reachable None [''c1'', ''c2'']
      \<lparr>pc = Returned None, err_var = None,
       tasks = [(''c1'', Finished), (''c2'', Finished)],
       events = [Go [''docker'', ''logs'', ''-f'', ''c1''],
                 Go [''docker'', ''logs'', ''-f'', ''c2''],
                 Run [''docker'', ''logs'', ''-f'', ''c1''],
                 Run [''docker'', ''logs'', ''-f'', ''c2'']],
       ended = [(''c1'', Some (ExitError 1)), (''c2'', None)]\<rparr>"
    by (rule reachable.step [OF a7], rule tail_step.check_nil [where i = 1 and containerID = "''c2''"]) (simp_all add: followArgs_def)
  have b0: "reachable None [''c1'', ''c2'']
      \<lparr>pc = AtCreate [''c1'', ''c2''], err_var = None,
       tasks = [],
       events = [],
       ended = []\<rparr>"
    using reachable.start [of None "[''c1'', ''c2'']"] by (simp add: tail_init_def)
  have b1: "reachable None [''c1'', ''c2'']
      \<lparr>pc = AtRange [''c1'', ''c2''], err_var = None,
       tasks = [],
       events = [],
       ended = []\<rparr>"
    by (rule reachable.step [OF b0], rule tail_step.create_ok [where containerIDs = "[''c1'', ''c2'']"]) (simp_all add: followArgs_def)
  have b2: "reachable None [''c1'', ''c2'']
      \<lparr>pc = AtRange [''c2''], err_var = None,
       tasks = [(''c1'', Following)],
       events = [Go [''docker'', ''logs'', ''-f'', ''c1'']],
       ended = []\<rparr>"
    by (rule reachable.step [OF b1], rule tail_step.launch [where containerID = "''c1''" and rest = "[''c2'']"]) (simp_all add: followArgs_def)
  have b3: "reachable None [''c1'', ''c2'']
      \<lparr>pc = AtRange [], err_var = None,
       tasks = [(''c1'', Following), (''c2'', Following)],
       events = [Go [''docker'', ''logs'', ''-f'', ''c1''],
                 Go [''docker'', ''logs'', ''-f'', ''c2'']],
       ended = []\<rparr>"
    by (rule reachable.step [OF b2], rule tail_step.launch [where containerID = "''c2''" and rest = "[]"]) (simp_all add: followArgs_def)
  have b4: "reachable None [''c1'', ''c2'']
      \<lparr>pc = Returned None, err_var = None,
       tasks = [(''c1'', Following), (''c2'', Following)],
       events = [Go [''docker'', ''logs'', ''-f'', ''c1''],
                 Go [''docker'', ''logs'', ''-f'', ''c2'']],
       ended = []\<rparr>"
    by (rule reachable.step [OF b3], rule tail_step.return_nil) (simp_all add: followArgs_def)
  have b5: "reachable None [''c1'', ''c2'']
      \<lparr>pc = Returned None, err_var = None,
       tasks = [(''c1'', AtCheck), (''c2'', Following)],
       events = [Go [''docker'', ''logs'', ''-f'', ''c1''],
                 Go [''docker'', ''logs'', ''-f'', ''c2''],
                 Run [''docker'', ''logs'', ''-f'', ''c1'']],
       ended = [(''c1'', None)]\<rparr>"
    by (rule reachable.step [OF b4], rule tail_step.run_ends [where i = 0 and containerID = "''c1''" and outcome = "None"]) (simp_all add: followArgs_def)
  have b6: "reachable None [''c1'', ''c2'']
      \<lparr>pc = Returned None, err_var = Some (ExitError 37),
       tasks = [(''c1'', AtCheck), (''c2'', AtCheck)],
       events = [Go [''docker'', ''logs'', ''-f'', ''c1''],
                 Go [''docker'', ''logs'', ''-f'', ''c2''],
                 Run [''docker'', ''logs'', ''-f'', ''c1''],
                 Run [''docker'', ''logs'', ''-f'', ''c2'']],
       ended = [(''c1'', None), (''c2'', Some (ExitError 37))]\<rparr>"
    by (rule reachable.step [OF b5], rule tail_step.run_ends [where i = 1 and containerID = "''c2''" and outcome = "Some (ExitError 37)"]) (simp_all add: followArgs_def)
  have b7: "reachable None [''c1'', ''c2'']
      \<lparr>pc = Returned None, err_var = Some (ExitError 37),
       tasks = [(''c1'', AtWarn), (''c2'', AtCheck)],
       events = [Go [''docker'', ''logs'', ''-f'', ''c1''],
                 Go [''docker'', ''logs'', ''-f'', ''c2''],
                 Run [''docker'', ''logs'', ''-f'', ''c1''],
                 Run [''docker'', ''logs'', ''-f'', ''c2'']],
       ended = [(''c1'', None), (''c2'', Some (ExitError 37))]\<rparr>"
    by (rule reachable.step [OF b6], rule tail_step.check_err [where i = 0 and containerID = "''c1''" and e = "ExitError 37"]) (simp_all add: followArgs_def)
  have b8: "reachable None [''c1'', ''c2'']
      \<lparr>pc = Returned None, err_var = Some (ExitError 37),
       tasks = [(''c1'', Finished), (''c2'', AtCheck)],
       events = [Go [''docker'', ''logs'', ''-f'', ''c1''],
                 Go [''docker'', ''logs'', ''-f'', ''c2''],
                 Run [''docker'', ''logs'', ''-f'', ''c1''],
                 Run [''docker'', ''logs'', ''-f'', ''c2''],
                 Warnf ''tailing node logs for container id %q failed, err: %s'' [Str ''c1'', Err (ExitError 37)]],
       ended = [(''c1'', None), (''c2'', Some (ExitError 37))]\<rparr>"
    by (rule reachable.step [OF b7], rule tail_step.warn [where i = 0 and containerID = "''c1''"]) (simp_all add: followArgs_def)
  have b9: "reachable None [''c1'', ''c2'']
      \<lparr>pc = Returned None, err_var = Some (ExitError 37),
       tasks = [(''c1'', Finished), (''c2'', AtWarn)],
       events = [Go [''docker'', ''logs'', ''-f'', ''c1''],
                 Go [''docker'', ''logs'', ''-f'', ''c2''],
                 Run [''docker'', ''logs'', ''-f'', ''c1''],
                 Run [''docker'', ''logs'', ''-f'', ''c2''],
                 Warnf ''tailing node logs for container id %q failed, err: %s'' [Str ''c1'', Err (ExitError 37)]],
       ended = [(''c1'', None), (''c2'', Some (ExitError 37))]\<rparr>"
    by (rule reachable.step [OF b8], rule tail_step.check_err [where i = 1 and containerID = "''c2''" and e = "ExitError 37"]) (simp_all add: followArgs_def)
  have b10: "reachable None [''c1'', ''c2'']
      \<lparr>pc = Returned None, err_var = Some (ExitError 37),
       tasks = [(''c1'', Finished), (''c2'', Finished)],
       events = [Go [''docker'', ''logs'', ''-f'', ''c1''],
                 Go [''docker'', ''logs'', ''-f'', ''c2''],
                 Run [''docker'', ''logs'', ''-f'', ''c1''],
                 Run [''docker'', ''logs'', ''-f'', ''c2''],
                 Warnf ''tailing node logs for container id %q failed, err: %s'' [Str ''c1'', Err (ExitError 37)],
                 Warnf ''tailing node logs for container id %q failed, err: %s'' [Str ''c2'', Err (ExitError 37)]],
       ended = [(''c1'', None), (''c2'', Some (ExitError 37))]\<rparr>"
    by (rule reachable.step [OF b9], rule tail_step.warn [where i = 1 and containerID = "''c2''"]) (simp_all add: followArgs_def)
  show ?thesis
    using a8 b10 by (rule conjI)
qed

end
